theory Spec2Isabelle
  imports Complex_Main "HOL-Library.Word"
begin

section \<open>The rate limiter of ratelimiter.cc, as a shallow embedding\<close>

text \<open>
  Conventions of the embedding.
  \<^item> \<open>size_t\<close> and \<open>ssize_t\<close> are 64-bit words, \<open>int\<close> is a 32-bit word. A word is
    compared unsigned with \<open><\<close> (as C compares a \<open>size_t\<close>) and signed with \<open><s\<close>
    (as C compares an \<open>int\<close>). Conversions are written out: \<open>ucast\<close> truncates,
    \<open>scast\<close> sign-extends.
  \<^item> \<open>double\<close> is modelled by \<open>real\<close> and its arithmetic is taken to be exact, but
    for the one product of \<open>time_add\<close> that is truncated to a count of nanoseconds:
    that product is rounded to a double by \<open>dbl\<close> first, as the rounding can decide the
    count. The conversion \<open>(int)\<close> of a double is the one the compiled code performs.
  \<^item> The fields \<open>tv_sec\<close> and \<open>tv_nsec\<close> of a \<open>struct timespec\<close> are 64-bit signed
    in the source; they are modelled by \<open>int\<close>, so overflow of a 64-bit count of seconds
    is left out.
  \<^item> The members \<open>send_\<close>, \<open>recv_\<close>, \<open>sendextra_\<close>, \<open>recvextra_\<close>, \<open>rate_\<close> and
    \<open>maxburst_\<close> of the class are the record fields \<open>send_m\<close>, \<open>recv_m\<close>,
    \<open>sendextra_m\<close>, \<open>recvextra_m\<close>, \<open>rate_m\<close> and \<open>maxburst_m\<close> (a name cannot end
    with an underscore here). The mutex is not modelled: calls run one after another.
  \<^item> The operating system is a record of scripted answers: the \<open>i\<close>-th call of a
    primitive returns the \<open>i\<close>-th answer of its script. Every call of a transfer
    primitive and every sleep is appended to a trace.
  \<^item> A loop of the source is a recursive function with fuel; running out of fuel is the
    fault \<open>OutOfFuel\<close>, the only way an operation does not return.
\<close>

subsection \<open>Data\<close>

record timespec =
  tv_sec :: int
  tv_nsec :: int

record limiter =
  send_m :: timespec
  recv_m :: timespec
  sendextra_m :: real
  recvextra_m :: real
  rate_m :: "32 word"
  maxburst_m :: "32 word"

text \<open>The answer of a primitive: its return value and the \<open>errno\<close> it sets when it fails.\<close>

record sysret =
  rv :: "64 word"
  err :: int

datatype event =
    EvSend "32 word" "64 word" "64 word" "32 word"
  | EvRecv "32 word" "64 word" "64 word" "32 word"
  | EvRead "32 word" "64 word" "64 word"
  | EvSendfile "32 word" "32 word" "64 word" "64 word"
  | EvSleep timespec

record world =
  clock :: "nat \<Rightarrow> timespec"
  net_send :: "nat \<Rightarrow> sysret"
  net_recv :: "nat \<Rightarrow> sysret"
  file_read :: "nat \<Rightarrow> sysret"
  net_sendfile :: "nat \<Rightarrow> sysret"
  n_clock :: nat
  n_send :: nat
  n_recv :: nat
  n_read :: nat
  n_sendfile :: nat
  errno :: int
  trace :: "event list"

datatype fault = OutOfFuel

definition EINTR :: int where
  "EINTR = 4"

subsection \<open>The primitives\<close>

definition clock_gettime :: "world \<Rightarrow> timespec \<times> world" where
  "clock_gettime w = (clock w (n_clock w), w\<lparr>n_clock := Suc (n_clock w)\<rparr>)"

definition nanosleep :: "world \<Rightarrow> timespec \<Rightarrow> world" where
  "nanosleep w t = w\<lparr>trace := trace w @ [EvSleep t]\<rparr>"

definition sys_send :: "world \<Rightarrow> 32 word \<Rightarrow> 64 word \<Rightarrow> 64 word \<Rightarrow> 32 word \<Rightarrow> 64 word \<times> world" where
  "sys_send w s buf len flags =
     (let r = net_send w (n_send w)
      in (rv r, w\<lparr>n_send := Suc (n_send w),
                   errno := (if rv r <s 0 then err r else errno w),
                   trace := trace w @ [EvSend s buf len flags]\<rparr>))"

definition sys_recv :: "world \<Rightarrow> 32 word \<Rightarrow> 64 word \<Rightarrow> 64 word \<Rightarrow> 32 word \<Rightarrow> 64 word \<times> world" where
  "sys_recv w s buf len flags =
     (let r = net_recv w (n_recv w)
      in (rv r, w\<lparr>n_recv := Suc (n_recv w),
                   errno := (if rv r <s 0 then err r else errno w),
                   trace := trace w @ [EvRecv s buf len flags]\<rparr>))"

definition sys_read :: "world \<Rightarrow> 32 word \<Rightarrow> 64 word \<Rightarrow> 64 word \<Rightarrow> 64 word \<times> world" where
  "sys_read w fd buf len =
     (let r = file_read w (n_read w)
      in (rv r, w\<lparr>n_read := Suc (n_read w),
                   errno := (if rv r <s 0 then err r else errno w),
                   trace := trace w @ [EvRead fd buf len]\<rparr>))"

definition sys_sendfile :: "world \<Rightarrow> 32 word \<Rightarrow> 32 word \<Rightarrow> 64 word \<Rightarrow> 64 word \<Rightarrow> 64 word \<times> world" where
  "sys_sendfile w sock fd offset count =
     (let r = net_sendfile w (n_sendfile w)
      in (rv r, w\<lparr>n_sendfile := Suc (n_sendfile w),
                   errno := (if rv r <s 0 then err r else errno w),
                   trace := trace w @ [EvSendfile sock fd offset count]\<rparr>))"

subsection \<open>Time arithmetic (ratelimiter.cc, lines 251-309)\<close>

definition nmax :: int where
  "nmax = 1000000000"

definition time_less :: "timespec \<Rightarrow> timespec \<Rightarrow> int" where
  "time_less t1 t2 =
     (if tv_sec t1 < tv_sec t2 \<or> (tv_sec t1 = tv_sec t2 \<and> tv_nsec t1 < tv_nsec t2)
      then 1 else 0)"

definition time_set :: "timespec \<Rightarrow> timespec \<Rightarrow> timespec" where
  "time_set t1 t2 = t1\<lparr>tv_sec := tv_sec t2, tv_nsec := tv_nsec t2\<rparr>"

text \<open>\<open>trunc\<close> of math.h rounds towards zero.\<close>

definition trunc :: "real \<Rightarrow> real" where
  "trunc x = (if 0 \<le> x then of_int \<lfloor>x\<rfloor> else of_int \<lceil>x\<rceil>)"

text \<open>
  Rounding of a real to the nearest double (binary64), ties to even. \<open>expo_up\<close> and
  \<open>expo_down\<close> find the binary exponent of a positive number, between -1022 (where
  the subnormal numbers start) and 1023; the unit in the last place is 52 binary places
  below it. Overflow to infinity is left out: the numbers rounded here are below
  \<open>10^9\<close> in magnitude.
\<close>

definition round_even :: "real \<Rightarrow> int" where
  "round_even y =
     (let f = \<lfloor>y\<rfloor>; r = y - of_int f
      in if r < 1 / 2 then f else if 1 / 2 < r then f + 1 else if even f then f else f + 1)"

fun expo_up :: "nat \<Rightarrow> real \<Rightarrow> int \<Rightarrow> int" where
  "expo_up 0 x e = e"
| "expo_up (Suc n) x e = (if x < 2 then e else expo_up n (x / 2) (e + 1))"

fun expo_down :: "nat \<Rightarrow> real \<Rightarrow> int \<Rightarrow> int" where
  "expo_down 0 x e = e"
| "expo_down (Suc n) x e = (if 1 \<le> x then e else expo_down n (x * 2) (e - 1))"

definition ulp :: "real \<Rightarrow> real" where
  "ulp x =
     (let e = (if 1 \<le> x then expo_up 1023 x 0 else expo_down 1022 x 0)
      in if 52 \<le> e then 2 ^ nat (e - 52) else 1 / 2 ^ nat (52 - e))"

definition dbl :: "real \<Rightarrow> real" where
  "dbl x =
     (if x = 0 then 0
      else if 0 < x then of_int (round_even (x / ulp x)) * ulp x
      else - (of_int (round_even (- x / ulp (- x))) * ulp (- x)))"

text \<open>
  The conversion \<open>(int) x\<close> of a double rounds towards zero. When the rounded value is not
  an \<open>int\<close> the conversion is undefined in C; the instruction it is compiled to on
  x86-64 then yields \<open>INT_MIN\<close> and the program goes on, which is what is modelled.
\<close>

definition int_of_double :: "real \<Rightarrow> int" where
  "int_of_double x =
     (let i = (if 0 \<le> x then \<lfloor>x\<rfloor> else \<lceil>x\<rceil>)
      in if - 2147483648 \<le> i \<and> i \<le> 2147483647 then i else - 2147483648)"

text \<open>
  \<open>duration - trunc(duration)\<close> is exact on doubles; its product with \<open>nmax\<close> is
  rounded. In the normalisation branch both operands of \<open>/\<close> and \<open>%\<close> are positive,
  where C's truncating division is \<open>div\<close> and \<open>mod\<close>.
\<close>

definition time_add :: "timespec \<Rightarrow> real \<Rightarrow> timespec" where
  "time_add t1 duration =
     (let t = t1\<lparr>tv_sec := tv_sec t1 + int_of_double (trunc duration)\<rparr>;
          t = t\<lparr>tv_nsec :=
                 tv_nsec t + int_of_double (trunc (dbl ((duration - trunc duration) * of_int nmax)))\<rparr>
      in if nmax \<le> tv_nsec t
         then t\<lparr>tv_sec := tv_sec t + tv_nsec t div nmax, tv_nsec := tv_nsec t mod nmax\<rparr>
         else t)"

definition time_diff :: "timespec \<Rightarrow> timespec \<Rightarrow> timespec \<Rightarrow> timespec" where
  "time_diff t1 t2 diff =
     (let d = diff\<lparr>tv_sec := tv_sec t1 - tv_sec t2, tv_nsec := tv_nsec t1 - tv_nsec t2\<rparr>
      in if tv_nsec d < 0
         then d\<lparr>tv_sec := tv_sec d - 1, tv_nsec := tv_nsec d + nmax\<rparr>
         else d)"

definition time_diff2 :: "timespec \<Rightarrow> timespec \<Rightarrow> real" where
  "time_diff2 t1 t2 =
     (let sec = tv_sec t1 - tv_sec t2;
          nsec = tv_nsec t1 - tv_nsec t2;
          (sec, nsec) = (if nsec < 0 then (sec - 1, nmax + nsec) else (sec, nsec))
      in of_int sec + of_int nsec / of_int nmax)"

subsection \<open>The pacing schedule\<close>

text \<open>
  The bookkeeping of lines 85-91 of \<open>send\<close> and 167-173 of \<open>recv\<close>, the same text up to
  the name of the member: the ideal duration and the credit, after the draw-down.
\<close>

definition draw_down :: "real \<Rightarrow> real \<Rightarrow> real \<times> real" where
  "draw_down duration extra =
     (if extra \<le> duration then (duration - extra, 0) else (0, extra - duration))"

text \<open>
  The critical section of \<open>send\<close> (lines 85-98) and of \<open>recv\<close> (lines 167-180), again the
  same text: the draw-down, then the caller's waiting time \<open>my\<close> and the next eligible
  time \<open>next\<close>. It returns the new next eligible time, the new credit, the duration
  after the draw-down and the waiting time.
\<close>

definition reserve ::
  "timespec \<Rightarrow> real \<Rightarrow> real \<Rightarrow> timespec \<Rightarrow> timespec \<Rightarrow> timespec \<times> real \<times> real \<times> timespec" where
  "reserve next extra duration now my =
     (let (duration, extra) = draw_down duration extra;
          (next, my) = (if time_less next now \<noteq> 0 then (time_set next now, my)
                        else (next, time_diff next now my));
          next = time_add next duration
      in (next, extra, duration, my))"

subsection \<open>The reliable-send wrapper (lines 225-249)\<close>

text \<open>
  \<open>nwritten\<close> is an \<open>int\<close>: the result of the primitive is truncated to 32 bits, compared
  signed, and sign-extended when it is subtracted from \<open>nleft\<close>. The local \<open>error\<close>,
  an \<open>int\<close>, is initialised to 0 and never assigned.
\<close>

fun sendall_loop ::
  "nat \<Rightarrow> world \<Rightarrow> 32 word \<Rightarrow> 32 word \<Rightarrow> 64 word \<Rightarrow> 64 word \<Rightarrow> 64 word \<Rightarrow> fault + (64 word \<times> world)" where
  "sendall_loop 0 w s flags len ptr nleft =
     (if nleft \<noteq> 0 then Inl OutOfFuel else Inr (len, w))"
| "sendall_loop (Suc k) w s flags len ptr nleft =
     (if nleft \<noteq> 0 then
        (let (r, w) = sys_send w s ptr nleft flags;
             nwritten = (ucast r :: 32 word)
         in if nwritten <s 0 then
              (if errno w = EINTR then
                 (let nwritten = (0 :: 32 word)
                  in sendall_loop k w s flags len (ptr + scast nwritten) (nleft - scast nwritten))
               else (let error = (0 :: 32 word) in Inr (scast error, w)))
            else if nwritten = 0 then Inr (len, w)
            else sendall_loop k w s flags len (ptr + scast nwritten) (nleft - scast nwritten))
      else Inr (len, w))"

definition sendall ::
  "nat \<Rightarrow> world \<Rightarrow> 32 word \<Rightarrow> 64 word \<Rightarrow> 64 word \<Rightarrow> 32 word \<Rightarrow> fault + (64 word \<times> world)" where
  "sendall fuel w s buf len flags = sendall_loop fuel w s flags len buf len"

subsection \<open>send (lines 49-123)\<close>

text \<open>
  \<open>total > maxburst_\<close> compares a \<open>size_t\<close> with an \<open>int\<close>: the \<open>int\<close> is converted
  (sign-extended) and the comparison is unsigned. \<open>size * 8\<close> is arithmetic of
  \<open>size_t\<close> and wraps. \<open>result\<close> is a \<open>size_t\<close>, so \<open>result < 0\<close> is the unsigned
  comparison. The local \<open>total\<close> is written \<open>tot\<close>.
\<close>

fun send_loop ::
  "nat \<Rightarrow> limiter \<Rightarrow> world \<Rightarrow> 32 word \<Rightarrow> 32 word \<Rightarrow> 64 word \<Rightarrow> 64 word \<Rightarrow> 64 word
     \<Rightarrow> fault + (64 word \<times> limiter \<times> world)" where
  "send_loop 0 L w s flags len ptr tot =
     (if 0 < tot then Inl OutOfFuel else Inr (len, L, w))"
| "send_loop (Suc k) L w s flags len ptr tot =
     (if 0 < tot then
        (let size = (if scast (maxburst_m L) < tot then scast (maxburst_m L) else tot);
             duration = real (unat (size * 8)) / real_of_int (sint (rate_m L));
             (now, w) = clock_gettime w;
             mysend = \<lparr>tv_sec = 0, tv_nsec = 0\<rparr>;
             (next, extra, duration, mysend) =
               reserve (send_m L) (sendextra_m L) duration now mysend;
             L = L\<lparr>send_m := next, sendextra_m := extra\<rparr>;
             mysend = time_add mysend duration;
             w = nanosleep w mysend;
             (t1, w) = clock_gettime w
         in case sendall (Suc k) w s ptr size flags of
              Inl e \<Rightarrow> Inl e
            | Inr (result, w) \<Rightarrow>
                if result < 0 then Inr (result, L, w)
                else
                  (let (t2, w) = clock_gettime w;
                       L = L\<lparr>sendextra_m := sendextra_m L + time_diff2 t2 t1\<rparr>
                   in send_loop k L w s flags len (ptr + size) (tot - size)))
      else Inr (len, L, w))"

definition send ::
  "nat \<Rightarrow> limiter \<Rightarrow> world \<Rightarrow> 32 word \<Rightarrow> 64 word \<Rightarrow> 64 word \<Rightarrow> 32 word
     \<Rightarrow> fault + (64 word \<times> limiter \<times> world)" where
  "send fuel L w s buf len flags =
     (if rate_m L = 0 then (let (r, w) = sys_send w s buf len flags in Inr (r, L, w))
      else send_loop fuel L w s flags len buf len)"

subsection \<open>recv (lines 125-190)\<close>

text \<open>
  \<open>result\<close> is an \<open>int\<close>: the result of the primitive is truncated, and sign-extended when
  it is returned as a \<open>size_t\<close>. \<open>result * 8\<close> is arithmetic of \<open>int\<close>; its overflow,
  undefined in C, is modelled as wrap-around.
\<close>

definition recv ::
  "limiter \<Rightarrow> world \<Rightarrow> 32 word \<Rightarrow> 64 word \<Rightarrow> 64 word \<Rightarrow> 32 word
     \<Rightarrow> fault + (64 word \<times> limiter \<times> world)" where
  "recv L w s buf len flags =
     (if rate_m L = 0 then (let (r, w) = sys_recv w s buf len flags in Inr (r, L, w))
      else
        (let size = (if scast (maxburst_m L) < len then scast (maxburst_m L) else len);
             (t1, w) = clock_gettime w;
             (r, w) = sys_recv w s buf size flags;
             result = (ucast r :: 32 word)
         in if result \<le>s 0 then Inr (scast result, L, w)
            else
              (let (t2, w) = clock_gettime w;
                   duration = real_of_int (sint (result * 8)) / real_of_int (sint (rate_m L));
                   (now, w) = clock_gettime w;
                   myrecv = \<lparr>tv_sec = 0, tv_nsec = 0\<rparr>;
                   L = L\<lparr>recvextra_m := recvextra_m L + time_diff2 t2 t1\<rparr>;
                   (next, extra, duration, myrecv) =
                     reserve (recv_m L) (recvextra_m L) duration now myrecv;
                   L = L\<lparr>recv_m := next, recvextra_m := extra\<rparr>;
                   myrecv = time_add myrecv duration
               in Inr (scast result, L, nanosleep w myrecv))))"

subsection \<open>sendfile (lines 192-223)\<close>

text \<open>
  \<open>rnum\<close> and \<open>snum\<close> are of type \<open>size_t\<close>: \<open>rnum < 0\<close> and \<open>snum < 0\<close> are unsigned
  comparisons. \<open>buf\<close> is the address of the local buffer.
\<close>

fun sendfile_loop ::
  "nat \<Rightarrow> limiter \<Rightarrow> world \<Rightarrow> 32 word \<Rightarrow> 32 word \<Rightarrow> 64 word \<Rightarrow> 64 word \<Rightarrow> 64 word
     \<Rightarrow> fault + (64 word \<times> limiter \<times> world)" where
  "sendfile_loop 0 L w sock fd buf count len =
     (if len < count then Inl OutOfFuel else Inr (count, L, w))"
| "sendfile_loop (Suc k) L w sock fd buf count len =
     (if len < count then
        (let (rnum, w) = sys_read w fd buf 1024
         in if rnum < 0 then
              (if errno w = EINTR then sendfile_loop k L w sock fd buf count len
               else Inr (rnum, L, w))
            else if rnum = 0 then Inr (len, L, w)
            else
              (let rnum = (if count - len < rnum then count - len else rnum)
               in case send (Suc k) L w sock buf rnum 0 of
                    Inl e \<Rightarrow> Inl e
                  | Inr (snum, L, w) \<Rightarrow>
                      if snum < 0 then Inr (snum, L, w)
                      else sendfile_loop k L w sock fd buf count (len + rnum)))
      else Inr (count, L, w))"

definition sendfile ::
  "nat \<Rightarrow> limiter \<Rightarrow> world \<Rightarrow> 32 word \<Rightarrow> 32 word \<Rightarrow> 64 word \<Rightarrow> 64 word \<Rightarrow> 64 word
     \<Rightarrow> fault + (64 word \<times> limiter \<times> world)" where
  "sendfile fuel L w sock fd offset count buf =
     (if rate_m L = 0
      then (let (r, w) = sys_sendfile w sock fd offset count in Inr (r, L, w))
      else sendfile_loop fuel L w sock fd buf count 0)"

subsection \<open>The constructors (lines 17-42)\<close>

text \<open>
  A constructor writes the members it names and leaves the others as they are in the
  storage of the object: the first argument is that storage before the constructor runs.
  \<open>r * 1000\<close> is arithmetic of \<open>int\<close>; its overflow is modelled as wrap-around.
\<close>

definition RateLimiter :: "limiter \<Rightarrow> world \<Rightarrow> limiter \<times> world" where
  "RateLimiter this w =
     (let this = this\<lparr>rate_m := 0\<rparr>;
          this = this\<lparr>maxburst_m := 10000\<rparr>;
          (t, w) = clock_gettime w;
          this = this\<lparr>send_m := t\<rparr>;
          (t, w) = clock_gettime w;
          this = this\<lparr>recv_m := t\<rparr>
      in (this, w))"

definition RateLimiter_int :: "limiter \<Rightarrow> world \<Rightarrow> 32 word \<Rightarrow> limiter \<times> world" where
  "RateLimiter_int this w r =
     (let this = this\<lparr>rate_m := r * 1000\<rparr>;
          this = this\<lparr>maxburst_m := 10000\<rparr>;
          (t, w) = clock_gettime w;
          this = this\<lparr>send_m := t\<rparr>;
          (t, w) = clock_gettime w;
          this = this\<lparr>recv_m := t\<rparr>
      in (this, w))"

definition RateLimiter_int_int :: "limiter \<Rightarrow> world \<Rightarrow> 32 word \<Rightarrow> 32 word \<Rightarrow> limiter \<times> world" where
  "RateLimiter_int_int this w r maxburst =
     (let this = this\<lparr>rate_m := r * 1000\<rparr>;
          this = this\<lparr>maxburst_m := maxburst\<rparr>;
          (t, w) = clock_gettime w;
          this = this\<lparr>send_m := t\<rparr>
      in (this, w))"

subsection \<open>Notions used to state the properties\<close>

text \<open>A time as a count of nanoseconds, and a time whose nanoseconds are in range.\<close>

definition ns_of :: "timespec \<Rightarrow> int" where
  "ns_of t = tv_sec t * nmax + tv_nsec t"

definition normalized :: "timespec \<Rightarrow> bool" where
  "normalized t = (0 \<le> tv_nsec t \<and> tv_nsec t < nmax)"

text \<open>A clock that never runs backwards, and a clock whose readings are in range.\<close>

definition clock_steady :: "world \<Rightarrow> bool" where
  "clock_steady w = (\<forall>i. ns_of (clock w i) \<le> ns_of (clock w (Suc i)))"

definition clock_normalized :: "world \<Rightarrow> bool" where
  "clock_normalized w = (\<forall>i. normalized (clock w i))"

subsection \<open>Example environments\<close>

text \<open>A clock that advances one second at each reading.\<close>

definition tick :: "nat \<Rightarrow> timespec" where
  "tick i = \<lparr>tv_sec = int i, tv_nsec = 0\<rparr>"

text \<open>A primitive that always returns 0.\<close>

definition quiet :: "nat \<Rightarrow> sysret" where
  "quiet i = \<lparr>rv = 0, err = 0\<rparr>"

text \<open>
  The world before any call, for a script of the transport send, of the transport receive
  and of the file read.
\<close>

definition world0 :: "(nat \<Rightarrow> sysret) \<Rightarrow> (nat \<Rightarrow> sysret) \<Rightarrow> (nat \<Rightarrow> sysret) \<Rightarrow> world" where
  "world0 sd rc rd =
     \<lparr>clock = tick, net_send = sd, net_recv = rc, file_read = rd, net_sendfile = quiet,
      n_clock = 0, n_send = 0, n_recv = 0, n_read = 0, n_sendfile = 0, errno = 0, trace = []\<rparr>"

text \<open>A primitive that always transfers 100 bytes.\<close>

definition accepting :: "nat \<Rightarrow> sysret" where
  "accepting i = \<lparr>rv = 100, err = 0\<rparr>"

text \<open>A transport whose send always fails with ECONNRESET (104).\<close>

definition reset :: "nat \<Rightarrow> sysret" where
  "reset i = \<lparr>rv = - 1, err = 104\<rparr>"

text \<open>A peer that accepts 200 bytes and then nothing more.\<close>

definition stalled :: "nat \<Rightarrow> sysret" where
  "stalled i = (if i = 0 then \<lparr>rv = 200, err = 0\<rparr> else \<lparr>rv = 0, err = 0\<rparr>)"

text \<open>A file whose read always fails with EIO (5), and one whose read is always interrupted.\<close>

definition io_error :: "nat \<Rightarrow> sysret" where
  "io_error i = \<lparr>rv = - 1, err = 5\<rparr>"

definition interrupted :: "nat \<Rightarrow> sysret" where
  "interrupted i = \<lparr>rv = - 1, err = EINTR\<rparr>"

text \<open>A limiter at 8 kbit/s with bursts of 500 bytes, both schedules at time 0 without credit.\<close>

definition limiter0 :: limiter where
  "limiter0 =
     \<lparr>send_m = \<lparr>tv_sec = 0, tv_nsec = 0\<rparr>, recv_m = \<lparr>tv_sec = 0, tv_nsec = 0\<rparr>,
      sendextra_m = 0, recvextra_m = 0, rate_m = 8000, maxburst_m = 500\<rparr>"

text \<open>The storage of an object before its constructor runs, holding earlier values.\<close>

definition stale :: limiter where
  "stale =
     \<lparr>send_m = \<lparr>tv_sec = 7, tv_nsec = 7\<rparr>, recv_m = \<lparr>tv_sec = - 5, tv_nsec = 7\<rparr>,
      sendextra_m = - 7 / 2, recvextra_m = 42, rate_m = 1, maxburst_m = 1\<rparr>"

subsection \<open>Sequences of calls\<close>

text \<open>
  A client that calls the limiter: the calls of the list are made one after the other on
  the same limiter, and their results are dropped. The last argument of \<open>Sendfile\<close> is
  the address of the local buffer.
\<close>

datatype call =
    Send "32 word" "64 word" "64 word" "32 word"
  | Recv "32 word" "64 word" "64 word" "32 word"
  | Sendfile "32 word" "32 word" "64 word" "64 word" "64 word"

fun run_call :: "nat \<Rightarrow> call \<Rightarrow> limiter \<Rightarrow> world \<Rightarrow> fault + (64 word \<times> limiter \<times> world)" where
  "run_call fuel (Send s buf len flags) L w = send fuel L w s buf len flags"
| "run_call fuel (Recv s buf len flags) L w = recv L w s buf len flags"
| "run_call fuel (Sendfile sock fd offset count buf) L w = sendfile fuel L w sock fd offset count buf"

fun run_calls :: "nat \<Rightarrow> call list \<Rightarrow> limiter \<Rightarrow> world \<Rightarrow> fault + (limiter \<times> world)" where
  "run_calls fuel [] L w = Inr (L, w)"
| "run_calls fuel (c # cs) L w =
     (case run_call fuel c L w of
        Inl e \<Rightarrow> Inl e
      | Inr (r, L, w) \<Rightarrow> run_calls fuel cs L w)"

section \<open>Properties\<close>

subsection \<open>Auxiliary facts on rounding\<close>

lemma round_even_ge: "of_int a \<le> y \<Longrightarrow> a \<le> round_even y"
proof -
  assume "of_int a \<le> y"
  then have "a \<le> \<lfloor>y\<rfloor>" by (simp add: le_floor_iff)
  then show ?thesis by (simp add: round_even_def Let_def)
qed

lemma round_even_le: "y \<le> of_int b \<Longrightarrow> round_even y \<le> b"
proof -
  assume y: "y \<le> of_int b"
  then have f: "\<lfloor>y\<rfloor> \<le> b" by (simp add: floor_le_iff)
  show ?thesis
  proof (cases "y = of_int \<lfloor>y\<rfloor>")
    case True
    then have "y - of_int \<lfloor>y\<rfloor> = 0" by simp
    then show ?thesis using f by (simp add: round_even_def Let_def)
  next
    case False
    moreover have "of_int \<lfloor>y\<rfloor> \<le> y" by (rule of_int_floor_le)
    ultimately have "of_int \<lfloor>y\<rfloor> < y" by (metis less_le)
    with y have "of_int \<lfloor>y\<rfloor> < (of_int b :: real)" by linarith
    then have "\<lfloor>y\<rfloor> < b" by simp
    then show ?thesis by (simp add: round_even_def Let_def)
  qed
qed

lemma expo_up_le: "x < 2 * 2 ^ m \<Longrightarrow> expo_up n x e \<le> e + int m"
proof (induction n arbitrary: x e m)
  case 0
  then show ?case by simp
next
  case (Suc n)
  show ?case
  proof (cases "x < 2")
    case True
    then show ?thesis by simp
  next
    case False
    with Suc.prems obtain m' where m: "m = Suc m'"
      by (cases m) auto
    with Suc.prems have "x / 2 < 2 * 2 ^ m'" by simp
    from Suc.IH [OF this, of "e + 1"] False m show ?thesis by simp
  qed
qed

lemma expo_down_le: "expo_down n x e \<le> e"
proof (induction n arbitrary: x e)
  case 0
  then show ?case by simp
next
  case (Suc n)
  from Suc.IH [of "x * 2" "e - 1"] show ?case by simp
qed

lemma ulp_grid:
  assumes "x * 2 ^ j < 2 ^ 53" and "j \<le> 52"
  shows "\<exists>k. ulp x = 1 / 2 ^ (k + j)"
proof -
  define e where "e = (if 1 \<le> x then expo_up 1023 x 0 else expo_down 1022 x 0)"
  have u: "ulp x = (if 52 \<le> e then 2 ^ nat (e - 52) else 1 / 2 ^ nat (52 - e))"
    by (simp add: ulp_def e_def)
  have "(2::real) ^ (Suc (52 - j) + j) = 2 ^ 53"
    by (rule arg_cong [of _ _ "(^) 2"]) (use assms(2) in simp)
  then have "(2 * 2 ^ (52 - j)) * 2 ^ j = (2::real) ^ 53"
    by (simp only: power_add power_Suc)
  with assms(1) have "x * 2 ^ j < (2 * 2 ^ (52 - j)) * 2 ^ j" by (simp only:)
  then have "x < 2 * 2 ^ (52 - j)" by (rule mult_right_less_imp_less) simp
  from expo_up_le [OF this, of 1023 0] have "expo_up 1023 x 0 \<le> int (52 - j)" by simp
  moreover have "expo_down 1022 x 0 \<le> int (52 - j)"
    using expo_down_le [of 1022 x 0] by simp
  ultimately have e: "e \<le> 52 - int j" using assms(2) by (simp add: e_def)
  show ?thesis
  proof (cases "52 \<le> e")
    case True
    with e have "e = 52" "j = 0" by auto
    with u show ?thesis by (intro exI [of _ 0]) simp
  next
    case False
    with e have "nat (52 - e) = (nat (52 - e) - j) + j" by simp
    with u False show ?thesis by (intro exI [of _ "nat (52 - e) - j"]) simp
  qed
qed

lemma dbl_ge_grid:
  assumes "0 < x" and "x * 2 ^ j < 2 ^ 53" and "j \<le> 52" and "of_int m / 2 ^ j \<le> x"
  shows "of_int m / 2 ^ j \<le> dbl x"
proof -
  from ulp_grid [OF assms(2,3)] obtain k where u: "ulp x = 1 / 2 ^ (k + j)" by blast
  have eq: "of_int m / 2 ^ j * 2 ^ (k + j) = (of_int (m * 2 ^ k) :: real)"
    by (simp add: power_add)
  have "of_int m / 2 ^ j * 2 ^ (k + j) \<le> x * 2 ^ (k + j)"
    using assms(4) by (rule mult_right_mono) simp
  then have "of_int (m * 2 ^ k) \<le> x * 2 ^ (k + j)" by (simp only: eq)
  then have "m * 2 ^ k \<le> round_even (x * 2 ^ (k + j))" by (rule round_even_ge)
  then have "(of_int (m * 2 ^ k) :: real) \<le> of_int (round_even (x * 2 ^ (k + j)))"
    by (simp only: of_int_le_iff)
  then have "(of_int (m * 2 ^ k) :: real) / 2 ^ (k + j) \<le> of_int (round_even (x * 2 ^ (k + j))) / 2 ^ (k + j)"
    by (simp add: divide_right_mono)
  moreover have "(of_int (m * 2 ^ k) :: real) / 2 ^ (k + j) = of_int m / 2 ^ j"
    by (simp add: power_add)
  moreover have "dbl x = of_int (round_even (x * 2 ^ (k + j))) / 2 ^ (k + j)"
    using assms(1) by (simp add: dbl_def u)
  ultimately show ?thesis by simp
qed

lemma dbl_le_grid:
  assumes "0 < x" and "x * 2 ^ j < 2 ^ 53" and "j \<le> 52" and "x \<le> of_int m / 2 ^ j"
  shows "dbl x \<le> of_int m / 2 ^ j"
proof -
  from ulp_grid [OF assms(2,3)] obtain k where u: "ulp x = 1 / 2 ^ (k + j)" by blast
  have eq: "of_int m / 2 ^ j * 2 ^ (k + j) = (of_int (m * 2 ^ k) :: real)"
    by (simp add: power_add)
  have "x * 2 ^ (k + j) \<le> of_int m / 2 ^ j * 2 ^ (k + j)"
    using assms(4) by (rule mult_right_mono) simp
  then have "x * 2 ^ (k + j) \<le> of_int (m * 2 ^ k)" by (simp only: eq)
  then have "round_even (x * 2 ^ (k + j)) \<le> m * 2 ^ k" by (rule round_even_le)
  then have "(of_int (round_even (x * 2 ^ (k + j))) :: real) \<le> of_int (m * 2 ^ k)"
    by (simp only: of_int_le_iff)
  then have "of_int (round_even (x * 2 ^ (k + j))) / 2 ^ (k + j) \<le> (of_int (m * 2 ^ k) :: real) / 2 ^ (k + j)"
    by (simp add: divide_right_mono)
  moreover have "(of_int (m * 2 ^ k) :: real) / 2 ^ (k + j) = of_int m / 2 ^ j"
    by (simp add: power_add)
  moreover have "dbl x = of_int (round_even (x * 2 ^ (k + j))) / 2 ^ (k + j)"
    using assms(1) by (simp add: dbl_def u)
  ultimately show ?thesis by simp
qed

lemma dbl_exact:
  assumes "0 < m" and "m < 2 ^ 53" and "j \<le> 52"
  shows "dbl (of_int m / 2 ^ j) = of_int m / 2 ^ j"
proof -
  let ?x = "(of_int m :: real) / 2 ^ j"
  have p: "0 < ?x" using assms(1) by simp
  have "?x * 2 ^ j = of_int m" by simp
  moreover have "(of_int m :: real) < of_int (2 ^ 53)"
    using assms(2) by (simp only: of_int_less_iff)
  ultimately have b: "?x * 2 ^ j < 2 ^ 53" by simp
  from dbl_ge_grid [OF p b assms(3), of m] dbl_le_grid [OF p b assms(3), of m]
  show ?thesis by simp
qed

lemma dbl_of_int: "0 \<le> n \<Longrightarrow> n < 2 ^ 53 \<Longrightarrow> dbl (of_int n) = of_int n"
proof (cases "n = 0")
  case True
  then show ?thesis by (simp add: dbl_def)
next
  case False
  assume "0 \<le> n" "n < 2 ^ 53"
  with False dbl_exact [of n 0] show ?thesis by simp
qed

lemma dbl_numeral: "(numeral k :: int) < 9007199254740992 \<Longrightarrow> dbl (numeral k) = numeral k"
  using dbl_of_int [of "numeral k"] by simp

lemma dbl_zero: "dbl 0 = 0"
  by (simp add: dbl_def)

lemma dbl_floor_bounds:
  assumes "0 \<le> x" and "x < 2 ^ 53"
  shows "of_int \<lfloor>x\<rfloor> \<le> dbl x \<and> dbl x \<le> of_int \<lfloor>x\<rfloor> + 1"
proof (cases "x = 0")
  case True
  then show ?thesis by (simp add: dbl_def)
next
  case False
  with assms have p: "0 < x" by simp
  have b: "x * 2 ^ 0 < 2 ^ 53" using assms(2) by simp
  have l: "of_int \<lfloor>x\<rfloor> / 2 ^ 0 \<le> x" by simp
  have h: "x \<le> of_int (\<lfloor>x\<rfloor> + 1) / 2 ^ 0" by simp
  from dbl_ge_grid [OF p b _ l] dbl_le_grid [OF p b _ h] show ?thesis by simp
qed

subsection \<open>Auxiliary facts on time arithmetic\<close>

lemma draw_down_nonneg: "draw_down d c = (d', c') \<Longrightarrow> 0 \<le> d' \<and> 0 \<le> c'"
  by (auto simp: draw_down_def split: if_splits)

lemma time_diff2_ns: "time_diff2 a b = real_of_int (ns_of a - ns_of b) / real_of_int nmax"
  by (simp add: time_diff2_def ns_of_def nmax_def Let_def field_simps)

lemma time_diff2_nonneg: "ns_of b \<le> ns_of a \<Longrightarrow> 0 \<le> time_diff2 a b"
  by (simp add: time_diff2_ns nmax_def)

lemma time_less_ns: "normalized a \<Longrightarrow> normalized b \<Longrightarrow> (time_less a b \<noteq> 0) = (ns_of a < ns_of b)"
proof -
  assume a: "normalized a" and b: "normalized b"
  have "tv_sec a < tv_sec b \<Longrightarrow> ns_of a < ns_of b"
  proof -
    assume "tv_sec a < tv_sec b"
    then have "tv_sec a + 1 \<le> tv_sec b" by simp
    then have "(tv_sec a + 1) * nmax \<le> tv_sec b * nmax"
      by (simp add: nmax_def)
    with a b show ?thesis by (simp add: ns_of_def normalized_def algebra_simps)
  qed
  moreover have "tv_sec b < tv_sec a \<Longrightarrow> ns_of b < ns_of a"
  proof -
    assume "tv_sec b < tv_sec a"
    then have "tv_sec b + 1 \<le> tv_sec a" by simp
    then have "(tv_sec b + 1) * nmax \<le> tv_sec a * nmax"
      by (simp add: nmax_def)
    with a b show ?thesis by (simp add: ns_of_def normalized_def algebra_simps)
  qed
  moreover have "tv_sec a = tv_sec b \<Longrightarrow> (ns_of a < ns_of b) = (tv_nsec a < tv_nsec b)"
    by (simp add: ns_of_def)
  ultimately show ?thesis
    by (cases "tv_sec a < tv_sec b"; cases "tv_sec a = tv_sec b") (auto simp: time_less_def)
qed

lemma trunc_nonneg: "0 \<le> d \<Longrightarrow> trunc d = of_int \<lfloor>d\<rfloor>"
  by (simp add: trunc_def)

lemma frac_ns_bounds:
  fixes d :: real
  assumes "0 \<le> d"
  shows "0 \<le> \<lfloor>(d - of_int \<lfloor>d\<rfloor>) * 1000000000\<rfloor>" "\<lfloor>(d - of_int \<lfloor>d\<rfloor>) * 1000000000\<rfloor> < 1000000000"
proof -
  have f0: "0 \<le> d - of_int \<lfloor>d\<rfloor>" by linarith
  have f1: "d - of_int \<lfloor>d\<rfloor> < 1" by linarith
  from f0 show "0 \<le> \<lfloor>(d - of_int \<lfloor>d\<rfloor>) * 1000000000\<rfloor>" by simp
  from f1 have "(d - of_int \<lfloor>d\<rfloor>) * 1000000000 < 1000000000" by simp
  then show "\<lfloor>(d - of_int \<lfloor>d\<rfloor>) * 1000000000\<rfloor> < 1000000000" by linarith
qed

lemma floor_split_ns: "\<lfloor>(d::real) * 1000000000\<rfloor> = \<lfloor>d\<rfloor> * 1000000000 + \<lfloor>(d - of_int \<lfloor>d\<rfloor>) * 1000000000\<rfloor>"
proof -
  have "d * 1000000000 = (d - of_int \<lfloor>d\<rfloor>) * 1000000000 + of_int (\<lfloor>d\<rfloor> * 1000000000)"
    by (simp add: algebra_simps)
  then have "\<lfloor>d * 1000000000\<rfloor> = \<lfloor>(d - of_int \<lfloor>d\<rfloor>) * 1000000000 + of_int (\<lfloor>d\<rfloor> * 1000000000)\<rfloor>"
    by simp
  also have "\<dots> = \<lfloor>(d - of_int \<lfloor>d\<rfloor>) * 1000000000\<rfloor> + \<lfloor>d\<rfloor> * 1000000000"
    by (rule floor_add_int [symmetric])
  finally show ?thesis by simp
qed

lemma int_of_double_of_int:
  "- 2147483648 \<le> i \<Longrightarrow> i \<le> 2147483647 \<Longrightarrow> int_of_double (of_int i) = i"
  by (simp add: int_of_double_def)

lemma time_add_nsec:
  fixes d :: real
  assumes "0 \<le> d"
  defines "x \<equiv> (d - of_int \<lfloor>d\<rfloor>) * 1000000000"
  shows "int_of_double (trunc (dbl x)) = \<lfloor>dbl x\<rfloor>"
    and "\<lfloor>x\<rfloor> \<le> \<lfloor>dbl x\<rfloor>" and "\<lfloor>dbl x\<rfloor> \<le> \<lfloor>x\<rfloor> + 1"
    and "0 \<le> \<lfloor>dbl x\<rfloor>" and "\<lfloor>dbl x\<rfloor> \<le> 1000000000"
proof -
  have x0: "0 \<le> x" unfolding x_def by simp
  have fx: "0 \<le> \<lfloor>x\<rfloor>" "\<lfloor>x\<rfloor> < 1000000000"
    using frac_ns_bounds [OF assms(1)] unfolding x_def by auto
  then have "of_int \<lfloor>x\<rfloor> < (1000000000 :: real)" by linarith
  then have x1: "x < 1000000001" by linarith
  then have x53: "x < 2 ^ 53" by simp
  from dbl_floor_bounds [OF x0 x53]
  have lo: "of_int \<lfloor>x\<rfloor> \<le> dbl x" and hi: "dbl x \<le> of_int (\<lfloor>x\<rfloor> + 1)" by simp_all
  from lo show l: "\<lfloor>x\<rfloor> \<le> \<lfloor>dbl x\<rfloor>" by (simp add: le_floor_iff)
  from hi have "\<lfloor>dbl x\<rfloor> \<le> \<lfloor>of_int (\<lfloor>x\<rfloor> + 1) :: real\<rfloor>" by (rule floor_mono)
  then show h: "\<lfloor>dbl x\<rfloor> \<le> \<lfloor>x\<rfloor> + 1" by (simp only: floor_of_int)
  from l fx show p: "0 \<le> \<lfloor>dbl x\<rfloor>" by linarith
  from h fx show q: "\<lfloor>dbl x\<rfloor> \<le> 1000000000" by linarith
  from p have "0 \<le> dbl x" by simp
  then have "trunc (dbl x) = of_int \<lfloor>dbl x\<rfloor>" by (rule trunc_nonneg)
  moreover have "int_of_double (of_int \<lfloor>dbl x\<rfloor>) = \<lfloor>dbl x\<rfloor>"
    using p q by (intro int_of_double_of_int) linarith+
  ultimately show "int_of_double (trunc (dbl x)) = \<lfloor>dbl x\<rfloor>" by simp
qed

lemma time_add_sec:
  fixes d :: real
  assumes "0 \<le> d" and "d < 2147483648"
  shows "int_of_double (trunc d) = \<lfloor>d\<rfloor>"
proof -
  have fl: "0 \<le> \<lfloor>d\<rfloor>" using assms(1) by simp
  have fu: "\<lfloor>d\<rfloor> \<le> 2147483647" using assms(2) by linarith
  have "int_of_double (of_int \<lfloor>d\<rfloor>) = \<lfloor>d\<rfloor>"
    using fl fu by (intro int_of_double_of_int) linarith+
  then show ?thesis by (simp only: trunc_nonneg [OF assms(1)])
qed

lemma time_add_unfold:
  fixes d :: real
  assumes "0 \<le> d" and "d < 2147483648"
  shows "time_add t d =
     (if nmax \<le> tv_nsec t + \<lfloor>dbl ((d - of_int \<lfloor>d\<rfloor>) * 1000000000)\<rfloor>
      then \<lparr>tv_sec = tv_sec t + \<lfloor>d\<rfloor>
                + (tv_nsec t + \<lfloor>dbl ((d - of_int \<lfloor>d\<rfloor>) * 1000000000)\<rfloor>) div nmax,
            tv_nsec = (tv_nsec t + \<lfloor>dbl ((d - of_int \<lfloor>d\<rfloor>) * 1000000000)\<rfloor>) mod nmax\<rparr>
      else \<lparr>tv_sec = tv_sec t + \<lfloor>d\<rfloor>,
            tv_nsec = tv_nsec t + \<lfloor>dbl ((d - of_int \<lfloor>d\<rfloor>) * 1000000000)\<rfloor>\<rparr>)"
proof -
  have td: "trunc d = of_int \<lfloor>d\<rfloor>" by (rule trunc_nonneg [OF assms(1)])
  have nm: "(of_int nmax :: real) = 1000000000" by (simp add: nmax_def)
  show ?thesis
    unfolding time_add_def td nm time_add_nsec(1) [OF assms(1)]
      time_add_sec [OF assms, unfolded td]
    by (simp add: Let_def)
qed

lemma time_add_ns:
  fixes d :: real
  assumes "0 \<le> d" and "d < 2147483648"
  shows "ns_of (time_add t d)
     = ns_of t + \<lfloor>d\<rfloor> * 1000000000 + \<lfloor>dbl ((d - of_int \<lfloor>d\<rfloor>) * 1000000000)\<rfloor>"
proof -
  have mm: "\<And>x::int. x div 1000000000 * 1000000000 + x mod 1000000000 = x" by simp
  show ?thesis
    unfolding time_add_unfold [OF assms]
    using mm [of "tv_nsec t + \<lfloor>dbl ((d - of_int \<lfloor>d\<rfloor>) * 1000000000)\<rfloor>"]
    by (simp add: ns_of_def nmax_def algebra_simps)
qed

lemma time_add_within:
  fixes d :: real
  assumes "0 \<le> d" and "d < 2147483648"
  shows "ns_of t + \<lfloor>d * 1000000000\<rfloor> \<le> ns_of (time_add t d)"
    and "ns_of (time_add t d) \<le> ns_of t + \<lfloor>d * 1000000000\<rfloor> + 1"
  using time_add_nsec(2,3) [OF assms(1)]
  unfolding time_add_ns [OF assms] floor_split_ns [of d]
  by linarith+

lemma time_add_normalized:
  fixes d :: real
  assumes "0 \<le> d" and "d < 2147483648" and "normalized t"
  shows "normalized (time_add t d)"
  unfolding time_add_unfold [OF assms(1,2)]
  using time_add_nsec(4,5) [OF assms(1)] assms(3)
  by (simp add: normalized_def nmax_def)

lemma time_less_trans:
  "time_less a b = 0 \<Longrightarrow> time_less b c = 0 \<Longrightarrow> time_less a c = 0"
  by (auto simp: time_less_def split: if_splits)

lemma time_less_asym: "time_less a b \<noteq> 0 \<Longrightarrow> time_less b a = 0"
  by (auto simp: time_less_def split: if_splits)

lemma time_less_refl: "time_less a a = 0"
  by (simp add: time_less_def)

lemma carried_later:
  fixes ds dn :: int
  assumes "0 \<le> ds" and "0 \<le> dn"
  shows "time_less
     (if nmax \<le> tv_nsec t + dn
      then \<lparr>tv_sec = tv_sec t + ds + (tv_nsec t + dn) div nmax,
            tv_nsec = (tv_nsec t + dn) mod nmax\<rparr>
      else \<lparr>tv_sec = tv_sec t + ds, tv_nsec = tv_nsec t + dn\<rparr>) t = 0"
proof (cases "nmax \<le> tv_nsec t + dn")
  case True
  then have "0 < (tv_nsec t + dn) div nmax"
    by (simp add: nmax_def pos_imp_zdiv_pos_iff)
  with True assms(1) show ?thesis by (simp add: time_less_def)
next
  case False
  with assms show ?thesis by (simp add: time_less_def)
qed

lemma time_add_later:
  fixes d :: real
  assumes "0 \<le> d" and "d < 2147483648"
  shows "time_less (time_add t d) t = 0"
proof -
  have ds0: "0 \<le> \<lfloor>d\<rfloor>" using assms(1) by simp
  show ?thesis
    unfolding time_add_unfold [OF assms]
    using ds0 time_add_nsec(4) [OF assms(1)] by (rule carried_later)
qed

lemma time_diff_ns:
  "normalized a \<Longrightarrow> normalized b \<Longrightarrow> ns_of b \<le> ns_of a \<Longrightarrow>
     normalized (time_diff a b z) \<and> ns_of (time_diff a b z) = ns_of a - ns_of b"
  by (auto simp: time_diff_def normalized_def ns_of_def nmax_def Let_def algebra_simps)

lemma time_diff2_parts:
  "time_diff2 a b
     = of_int (tv_sec (time_diff a b z)) + of_int (tv_nsec (time_diff a b z)) / 1000000000"
  by (simp add: time_diff2_def time_diff_def nmax_def Let_def)

subsection \<open>Auxiliary facts on the machine integers\<close>

lemma sint_bound32: "sint (x :: 32 word) \<le> 2147483647"
  using sint_lt [of x] by simp

lemma unat_scast_pos:
  fixes mb :: "32 word"
  assumes "0 <s mb"
  shows "unat (scast mb :: 64 word) = nat (sint mb)"
proof -
  have p: "0 \<le> sint mb" using assms by (simp add: word_sless_alt)
  have up: "is_up (scast :: 32 word \<Rightarrow> 64 word)" by (simp add: is_up)
  have s: "sint (scast mb :: 64 word) = sint mb" using up by (rule sint_up_scast)
  have "sint mb < 2 ^ 64" using sint_bound32 [of mb] by simp
  with p have "take_bit 64 (sint mb) = sint mb" by (simp add: take_bit_int_eq_self)
  then have "uint (scast mb :: 64 word) = sint mb"
    using uint_sint [of "scast mb :: 64 word"] s by simp
  then show ?thesis by (simp add: unat_eq_nat_uint del: nat_uint_eq)
qed

lemma unat_times8:
  fixes sz :: "64 word"
  assumes "unat sz \<le> 2147483647"
  shows "unat (sz * 8) = unat sz * 8"
proof -
  have "unat sz * unat (8 :: 64 word) < 2 ^ LENGTH(64)" using assms by simp
  then have "unat (sz * 8) = unat sz * unat (8 :: 64 word)" by (simp only: unat_mult_lem)
  then show ?thesis by simp
qed

lemma quotient_bound:
  fixes a b c :: real
  assumes "a \<le> 2147483647 * c" and "c \<le> b" and "0 < c"
  shows "a / b < 2147483648"
proof (cases "0 \<le> a")
  case True
  from assms(2,3) have b: "0 < b" by linarith
  have "a / b \<le> a / c"
    using assms(2) True assms(3) b by (intro divide_left_mono) simp_all
  also have "a / c \<le> 2147483647"
    using assms(1,3) by (simp add: pos_divide_le_eq)
  finally show ?thesis by simp
next
  case False
  from assms(2,3) have "0 < b" by linarith
  with False have "a / b \<le> 0" by (simp add: divide_nonpos_pos)
  then show ?thesis by simp
qed

lemma send_duration_bound:
  fixes mb rate :: "32 word" and tot :: "64 word"
  assumes "0 <s mb" and "8 \<le>s rate"
  shows "real (unat ((if scast mb < tot then scast mb else tot) * 8)) / real_of_int (sint rate)
     < 2147483648"
proof -
  let ?sz = "if scast mb < tot then scast mb else tot"
  have "8 \<le> sint rate" using assms(2) by (simp add: word_sle_eq)
  then have "real_of_int 8 \<le> real_of_int (sint rate)" by (simp only: of_int_le_iff)
  then have r: "8 \<le> real_of_int (sint rate)" by simp
  have m: "unat (scast mb :: 64 word) \<le> 2147483647"
    using unat_scast_pos [OF assms(1)] sint_bound32 [of mb] by simp
  have "unat ?sz \<le> unat (scast mb :: 64 word)"
  proof (cases "scast mb < tot")
    case True
    then show ?thesis by simp
  next
    case False
    then have "tot \<le> scast mb" by simp
    then have "unat tot \<le> unat (scast mb :: 64 word)" by (simp only: word_le_nat_alt)
    with False show ?thesis by simp
  qed
  with m have sz: "unat ?sz \<le> 2147483647" by linarith
  then have "unat (?sz * 8) \<le> 2147483647 * 8"
    by (simp only: unat_times8 [OF sz])
  then have "real (unat (?sz * 8)) \<le> real (2147483647 * 8)" by (simp only: of_nat_le_iff)
  then have a: "real (unat (?sz * 8)) \<le> 2147483647 * 8" by simp
  from a r show ?thesis by (rule quotient_bound) simp
qed

lemma recv_duration_bound:
  fixes x rate :: "32 word"
  assumes "8 \<le>s rate"
  shows "real_of_int (sint x) / real_of_int (sint rate) < 2147483648"
proof -
  have "8 \<le> sint rate" using assms by (simp add: word_sle_eq)
  then have "real_of_int 8 \<le> real_of_int (sint rate)" by (simp only: of_int_le_iff)
  then have r: "8 \<le> real_of_int (sint rate)" by simp
  have "sint x \<le> 2147483647 * 8" using sint_bound32 [of x] by simp
  then have "real_of_int (sint x) \<le> real_of_int (2147483647 * 8)" by (simp only: of_int_le_iff)
  then have a: "real_of_int (sint x) \<le> 2147483647 * 8" by simp
  from a r show ?thesis by (rule quotient_bound) simp
qed

subsection \<open>Auxiliary facts on the schedule and the loops\<close>

lemma reserve_credit:
  "reserve next extra d now my = (next', extra', d', my') \<Longrightarrow> 0 \<le> extra' \<and> 0 \<le> d'"
  by (auto simp: reserve_def draw_down_def Let_def split: if_splits)

lemma reserve_duration:
  "reserve next extra d now my = (next', extra', d', my') \<Longrightarrow> 0 \<le> extra \<Longrightarrow>
     d < 2147483648 \<Longrightarrow> d' < 2147483648"
  by (auto simp: reserve_def draw_down_def Let_def split: if_splits)

lemma time_set_eq: "time_set (a :: timespec) b = b"
  by (simp add: time_set_def)

lemma reserve_time:
  "reserve next extra d now my = (next', extra', d', my') \<Longrightarrow>
     next' = time_add (if time_less next now \<noteq> 0 then now else next) d'"
  by (auto simp: reserve_def draw_down_def Let_def time_set_eq split: if_splits)

lemma reserve_later:
  assumes r: "reserve next extra d now my = (next', extra', d', my')"
    and c: "0 \<le> extra" and b: "d < 2147483648"
  shows "time_less next' next = 0"
proof -
  have d0: "0 \<le> d'" using reserve_credit [OF r] by simp
  have d1: "d' < 2147483648" using reserve_duration [OF r c b] .
  show ?thesis
  proof (cases "time_less next now \<noteq> 0")
    case True
    with reserve_time [OF r] have n: "next' = time_add now d'" by simp
    from time_less_trans [OF time_add_later [OF d0 d1, of now] time_less_asym [OF True]] n
    show ?thesis by simp
  next
    case False
    with reserve_time [OF r] have n: "next' = time_add next d'" by simp
    from time_add_later [OF d0 d1, of "next"] n show ?thesis by simp
  qed
qed

lemma reserve_next:
  assumes r: "reserve next extra d now my = (next', extra', d', my')"
    and c: "0 \<le> extra" and b: "d < 2147483648"
    and n: "normalized next" "normalized now"
  shows "normalized next' \<and> ns_of next \<le> ns_of next'"
proof -
  have d0: "0 \<le> d'" using reserve_credit [OF r] by simp
  have d1: "d' < 2147483648" using reserve_duration [OF r c b] .
  have f0: "0 \<le> \<lfloor>d' * 1000000000\<rfloor>" using d0 by simp
  show ?thesis
  proof (cases "time_less next now \<noteq> 0")
    case True
    with reserve_time [OF r] have e: "next' = time_add now d'" by simp
    from True n have l: "ns_of next < ns_of now" by (simp add: time_less_ns)
    have "ns_of next \<le> ns_of (time_add now d')"
      using time_add_within(1) [OF d0 d1, of now] f0 l by linarith
    with time_add_normalized [OF d0 d1 n(2)] show ?thesis unfolding e by blast
  next
    case False
    with reserve_time [OF r] have e: "next' = time_add next d'" by simp
    have "ns_of next \<le> ns_of (time_add next d')"
      using time_add_within(1) [OF d0 d1, of "next"] f0 by linarith
    with time_add_normalized [OF d0 d1 n(1)] show ?thesis unfolding e by blast
  qed
qed

lemma sendall_loop_frame:
  "sendall_loop k w s flags len ptr nleft = Inr (r, w') \<Longrightarrow>
     clock w' = clock w \<and> n_clock w' = n_clock w"
  by (induction k arbitrary: w ptr nleft)
     (auto simp: sys_send_def Let_def split: if_splits)

lemma sendall_frame:
  "sendall k w s buf len flags = Inr (r, w') \<Longrightarrow> clock w' = clock w \<and> n_clock w' = n_clock w"
  unfolding sendall_def by (rule sendall_loop_frame)

lemma send_loop_step:
  assumes "send_loop (Suc k) L w s flags len ptr tot = Inr (r, L', w')" and "0 < tot"
  shows "\<exists>next extra d my w1.
     reserve (send_m L) (sendextra_m L)
       (real (unat ((if scast (maxburst_m L) < tot then scast (maxburst_m L) else tot) * 8))
          / real_of_int (sint (rate_m L)))
       (clock w (n_clock w)) \<lparr>tv_sec = 0, tv_nsec = 0\<rparr> = (next, extra, d, my)
     \<and> clock w1 = clock w
     \<and> send_loop k
          (L\<lparr>send_m := next,
             sendextra_m := extra + time_diff2 (clock w (Suc (Suc (n_clock w))))
                                       (clock w (Suc (n_clock w)))\<rparr>)
          (w1\<lparr>n_clock := Suc (Suc (Suc (n_clock w)))\<rparr>) s flags len
          (ptr + (if scast (maxburst_m L) < tot then scast (maxburst_m L) else tot))
          (tot - (if scast (maxburst_m L) < tot then scast (maxburst_m L) else tot))
        = Inr (r, L', w')"
  using assms
  by (auto simp: Let_def clock_gettime_def nanosleep_def
        split: sum.splits prod.splits if_splits dest!: sendall_frame)

lemma send_loop_frame:
  "send_loop k L w s flags len ptr tot = Inr (r, L', w') \<Longrightarrow>
     clock w' = clock w \<and> recv_m L' = recv_m L \<and> recvextra_m L' = recvextra_m L
     \<and> rate_m L' = rate_m L \<and> maxburst_m L' = maxburst_m L"
proof (induction k arbitrary: L w ptr tot)
  case 0
  then show ?case by (simp split: if_splits)
next
  case (Suc k)
  show ?case
  proof (cases "0 < tot")
    case False
    with Suc.prems show ?thesis by simp
  next
    case True
    from send_loop_step [OF Suc.prems True] obtain "next" extra d my w1
      where cw: "clock w1 = clock w"
        and rest: "send_loop k
          (L\<lparr>send_m := next,
             sendextra_m := extra + time_diff2 (clock w (Suc (Suc (n_clock w))))
                                       (clock w (Suc (n_clock w)))\<rparr>)
          (w1\<lparr>n_clock := Suc (Suc (Suc (n_clock w)))\<rparr>) s flags len
          (ptr + (if scast (maxburst_m L) < tot then scast (maxburst_m L) else tot))
          (tot - (if scast (maxburst_m L) < tot then scast (maxburst_m L) else tot))
        = Inr (r, L', w')"
      by blast
    from Suc.IH [OF rest] cw show ?thesis by simp
  qed
qed

lemma clock_steady_diff:
  "clock_steady w \<Longrightarrow> 0 \<le> time_diff2 (clock w (Suc i)) (clock w i)"
  by (simp add: clock_steady_def time_diff2_nonneg)

lemma send_loop_credit:
  "send_loop k L w s flags len ptr tot = Inr (r, L', w') \<Longrightarrow> clock_steady w \<Longrightarrow>
     0 \<le> sendextra_m L \<Longrightarrow> 0 \<le> sendextra_m L'"
proof (induction k arbitrary: L w ptr tot)
  case 0
  then show ?case by (simp split: if_splits)
next
  case (Suc k)
  show ?case
  proof (cases "0 < tot")
    case False
    with Suc.prems show ?thesis by simp
  next
    case True
    from send_loop_step [OF Suc.prems(1) True] obtain "next" extra d my w1
      where res: "reserve (send_m L) (sendextra_m L)
          (real (unat ((if scast (maxburst_m L) < tot then scast (maxburst_m L) else tot) * 8))
             / real_of_int (sint (rate_m L)))
          (clock w (n_clock w)) \<lparr>tv_sec = 0, tv_nsec = 0\<rparr> = (next, extra, d, my)"
        and cw: "clock w1 = clock w"
        and rest: "send_loop k
          (L\<lparr>send_m := next,
             sendextra_m := extra + time_diff2 (clock w (Suc (Suc (n_clock w))))
                                       (clock w (Suc (n_clock w)))\<rparr>)
          (w1\<lparr>n_clock := Suc (Suc (Suc (n_clock w)))\<rparr>) s flags len
          (ptr + (if scast (maxburst_m L) < tot then scast (maxburst_m L) else tot))
          (tot - (if scast (maxburst_m L) < tot then scast (maxburst_m L) else tot))
        = Inr (r, L', w')"
      by blast
    have st1: "clock_steady (w1\<lparr>n_clock := Suc (Suc (Suc (n_clock w)))\<rparr>)"
      using Suc.prems(2) cw by (simp add: clock_steady_def)
    have "0 \<le> extra" using reserve_credit [OF res] by simp
    with clock_steady_diff [OF Suc.prems(2), of "Suc (n_clock w)"]
    have c1: "0 \<le> sendextra_m (L\<lparr>send_m := next,
             sendextra_m := extra + time_diff2 (clock w (Suc (Suc (n_clock w))))
                                       (clock w (Suc (n_clock w)))\<rparr>)"
      by simp
    from Suc.IH [OF rest st1 c1] show ?thesis .
  qed
qed

lemma send_loop_forward:
  "send_loop k L w s flags len ptr tot = Inr (r, L', w') \<Longrightarrow> clock_steady w \<Longrightarrow>
     0 \<le> sendextra_m L \<Longrightarrow> 8 \<le>s rate_m L \<Longrightarrow> 0 <s maxburst_m L \<Longrightarrow>
     time_less (send_m L') (send_m L) = 0
     \<and> (clock_normalized w \<and> normalized (send_m L) \<longrightarrow>
          normalized (send_m L') \<and> ns_of (send_m L) \<le> ns_of (send_m L'))"
proof (induction k arbitrary: L w ptr tot)
  case 0
  then show ?case by (simp add: time_less_refl split: if_splits)
next
  case (Suc k)
  show ?case
  proof (cases "0 < tot")
    case False
    with Suc.prems show ?thesis by (simp add: time_less_refl)
  next
    case True
    let ?dur = "real (unat ((if scast (maxburst_m L) < tot then scast (maxburst_m L) else tot) * 8))
             / real_of_int (sint (rate_m L))"
    let ?L1 = "\<lambda>next extra. L\<lparr>send_m := next,
             sendextra_m := extra + time_diff2 (clock w (Suc (Suc (n_clock w))))
                                       (clock w (Suc (n_clock w)))\<rparr>"
    from send_loop_step [OF Suc.prems(1) True] obtain "next" extra d my w1
      where res: "reserve (send_m L) (sendextra_m L) ?dur
          (clock w (n_clock w)) \<lparr>tv_sec = 0, tv_nsec = 0\<rparr> = (next, extra, d, my)"
        and cw: "clock w1 = clock w"
        and rest: "send_loop k (?L1 next extra)
          (w1\<lparr>n_clock := Suc (Suc (Suc (n_clock w)))\<rparr>) s flags len
          (ptr + (if scast (maxburst_m L) < tot then scast (maxburst_m L) else tot))
          (tot - (if scast (maxburst_m L) < tot then scast (maxburst_m L) else tot))
        = Inr (r, L', w')"
      by blast
    have b: "?dur < 2147483648" by (rule send_duration_bound [OF Suc.prems(5,4)])
    have st1: "clock_steady (w1\<lparr>n_clock := Suc (Suc (Suc (n_clock w)))\<rparr>)"
      using Suc.prems(2) cw by (simp add: clock_steady_def)
    have "0 \<le> extra" using reserve_credit [OF res] by simp
    with clock_steady_diff [OF Suc.prems(2), of "Suc (n_clock w)"]
    have c1: "0 \<le> sendextra_m (?L1 next extra)" by simp
    have r1: "8 \<le>s rate_m (?L1 next extra)" using Suc.prems(4) by simp
    have m1: "0 <s maxburst_m (?L1 next extra)" using Suc.prems(5) by simp
    from Suc.IH [OF rest st1 c1 r1 m1]
    have l2: "time_less (send_m L') next = 0"
      and n2: "clock_normalized w \<Longrightarrow> normalized next \<Longrightarrow>
          normalized (send_m L') \<and> ns_of next \<le> ns_of (send_m L')"
      using cw by (simp_all add: clock_normalized_def)
    have l1: "time_less next (send_m L) = 0"
      by (rule reserve_later [OF res Suc.prems(3) b])
    have "normalized (send_m L') \<and> ns_of (send_m L) \<le> ns_of (send_m L')"
      if h: "clock_normalized w" "normalized (send_m L)"
    proof -
      from h(1) have "normalized (clock w (n_clock w))" by (simp add: clock_normalized_def)
      from reserve_next [OF res Suc.prems(3) b h(2) this] n2 [OF h(1)]
      show ?thesis by auto
    qed
    with time_less_trans [OF l2 l1] show ?thesis by blast
  qed
qed

lemma send_frame:
  "send k L w s buf len flags = Inr (r, L', w') \<Longrightarrow>
     clock w' = clock w \<and> recv_m L' = recv_m L \<and> recvextra_m L' = recvextra_m L
     \<and> rate_m L' = rate_m L \<and> maxburst_m L' = maxburst_m L"
  by (auto simp: send_def sys_send_def Let_def split: if_splits dest!: send_loop_frame)

lemma send_credit:
  "send k L w s buf len flags = Inr (r, L', w') \<Longrightarrow> clock_steady w \<Longrightarrow>
     0 \<le> sendextra_m L \<Longrightarrow> 0 \<le> sendextra_m L'"
  by (auto simp: send_def sys_send_def Let_def split: if_splits dest!: send_loop_credit)

lemma send_forward:
  assumes "send k L w s buf len flags = Inr (r, L', w')" and "clock_steady w"
    and "0 \<le> sendextra_m L" and "rate_m L = 0 \<or> 8 \<le>s rate_m L" and "0 <s maxburst_m L"
  shows "time_less (send_m L') (send_m L) = 0
     \<and> (clock_normalized w \<and> normalized (send_m L) \<longrightarrow>
          normalized (send_m L') \<and> ns_of (send_m L) \<le> ns_of (send_m L'))"
proof (cases "rate_m L = 0")
  case True
  with assms(1) show ?thesis
    by (auto simp: send_def sys_send_def Let_def time_less_refl)
next
  case False
  with assms(1) have "send_loop k L w s flags len buf len = Inr (r, L', w')"
    by (simp add: send_def)
  from send_loop_forward [OF this assms(2,3) _ assms(5)] False assms(4) show ?thesis by blast
qed

lemma recv_frame:
  "recv L w s buf len flags = Inr (r, L', w') \<Longrightarrow>
     clock w' = clock w \<and> send_m L' = send_m L \<and> sendextra_m L' = sendextra_m L
     \<and> rate_m L' = rate_m L \<and> maxburst_m L' = maxburst_m L"
  by (auto simp: recv_def sys_recv_def Let_def clock_gettime_def nanosleep_def
        split: if_splits prod.splits)

lemma recv_credit:
  "recv L w s buf len flags = Inr (r, L', w') \<Longrightarrow> 0 \<le> recvextra_m L \<Longrightarrow> 0 \<le> recvextra_m L'"
  by (auto simp: recv_def sys_recv_def Let_def clock_gettime_def nanosleep_def
        split: if_splits prod.splits dest!: reserve_credit)

lemma recv_step:
  assumes "recv L w s buf len flags = Inr (r, L', w')" and "rate_m L \<noteq> 0"
  shows "L' = L \<or> (\<exists>x next extra d my.
     reserve (recv_m L)
       (recvextra_m L + time_diff2 (clock w (Suc (n_clock w))) (clock w (n_clock w)))
       (real_of_int (sint (x * 8 :: 32 word)) / real_of_int (sint (rate_m L)))
       (clock w (Suc (Suc (n_clock w)))) \<lparr>tv_sec = 0, tv_nsec = 0\<rparr> = (next, extra, d, my)
     \<and> recv_m L' = next)"
  using assms
  by (auto simp: recv_def sys_recv_def Let_def clock_gettime_def nanosleep_def
        split: if_splits prod.splits)

lemma recv_forward:
  assumes run: "recv L w s buf len flags = Inr (r, L', w')" and st: "clock_steady w"
    and c: "0 \<le> recvextra_m L" and rt: "rate_m L = 0 \<or> 8 \<le>s rate_m L"
  shows "time_less (recv_m L') (recv_m L) = 0
     \<and> (clock_normalized w \<and> normalized (recv_m L) \<longrightarrow>
          normalized (recv_m L') \<and> ns_of (recv_m L) \<le> ns_of (recv_m L'))"
proof (cases "rate_m L = 0")
  case True
  with run show ?thesis
    by (auto simp: recv_def sys_recv_def Let_def time_less_refl)
next
  case False
  with rt have r8: "8 \<le>s rate_m L" by simp
  from recv_step [OF run False] show ?thesis
  proof
    assume "L' = L"
    then show ?thesis by (simp add: time_less_refl)
  next
    assume "\<exists>x next extra d my.
     reserve (recv_m L)
       (recvextra_m L + time_diff2 (clock w (Suc (n_clock w))) (clock w (n_clock w)))
       (real_of_int (sint (x * 8 :: 32 word)) / real_of_int (sint (rate_m L)))
       (clock w (Suc (Suc (n_clock w)))) \<lparr>tv_sec = 0, tv_nsec = 0\<rparr> = (next, extra, d, my)
     \<and> recv_m L' = next"
    then obtain x "next" extra d my where res: "reserve (recv_m L)
       (recvextra_m L + time_diff2 (clock w (Suc (n_clock w))) (clock w (n_clock w)))
       (real_of_int (sint (x * 8 :: 32 word)) / real_of_int (sint (rate_m L)))
       (clock w (Suc (Suc (n_clock w)))) \<lparr>tv_sec = 0, tv_nsec = 0\<rparr> = (next, extra, d, my)"
      and n: "recv_m L' = next"
      by blast
    have c1: "0 \<le> recvextra_m L + time_diff2 (clock w (Suc (n_clock w))) (clock w (n_clock w))"
      using c clock_steady_diff [OF st, of "n_clock w"] by simp
    have b: "real_of_int (sint (x * 8)) / real_of_int (sint (rate_m L)) < 2147483648"
      by (rule recv_duration_bound [OF r8])
    have l: "time_less next (recv_m L) = 0" by (rule reserve_later [OF res c1 b])
    have "normalized next \<and> ns_of (recv_m L) \<le> ns_of next"
      if h: "clock_normalized w" "normalized (recv_m L)"
    proof -
      from h(1) have "normalized (clock w (Suc (Suc (n_clock w))))"
        by (simp add: clock_normalized_def)
      from reserve_next [OF res c1 b h(2) this] show ?thesis .
    qed
    with l n show ?thesis by blast
  qed
qed

lemma sendfile_loop_step:
  assumes run: "sendfile_loop (Suc k) L w sock fd buf count len = Inr (r, L', w')"
    and lt: "len < count"
  shows "(L' = L \<and> clock w' = clock w)
     \<or> (\<exists>w1 n snum L2 w2. clock w1 = clock w
          \<and> send (Suc k) L w1 sock buf n 0 = Inr (snum, L2, w2)
          \<and> sendfile_loop k L2 w2 sock fd buf count (len + n) = Inr (r, L', w'))"
proof -
  obtain rnum w1 where rd: "sys_read w fd buf 1024 = (rnum, w1)"
    by (cases "sys_read w fd buf 1024")
  then have cw: "clock w1 = clock w" by (auto simp: sys_read_def Let_def)
  show ?thesis
  proof (cases "rnum = 0")
    case True
    with run lt rd cw show ?thesis by simp
  next
    case False
    let ?n = "if count - len < rnum then count - len else rnum"
    from run lt rd False
    obtain snum L2 w2 where sd: "send (Suc k) L w1 sock buf ?n 0 = Inr (snum, L2, w2)"
      and rest: "sendfile_loop k L2 w2 sock fd buf count (len + ?n) = Inr (r, L', w')"
      by (auto simp: Let_def split: sum.splits prod.splits if_splits)
    with cw show ?thesis by blast
  qed
qed

lemma sendfile_loop_frame:
  "sendfile_loop k L w sock fd buf count len = Inr (r, L', w') \<Longrightarrow>
     clock w' = clock w \<and> recv_m L' = recv_m L \<and> recvextra_m L' = recvextra_m L
     \<and> rate_m L' = rate_m L \<and> maxburst_m L' = maxburst_m L"
proof (induction k arbitrary: L w len)
  case 0
  then show ?case by (simp split: if_splits)
next
  case (Suc k)
  show ?case
  proof (cases "len < count")
    case False
    with Suc.prems show ?thesis by simp
  next
    case True
    from sendfile_loop_step [OF Suc.prems True] show ?thesis
    proof
      assume "L' = L \<and> clock w' = clock w"
      then show ?thesis by simp
    next
      assume "\<exists>w1 n snum L2 w2. clock w1 = clock w
          \<and> send (Suc k) L w1 sock buf n 0 = Inr (snum, L2, w2)
          \<and> sendfile_loop k L2 w2 sock fd buf count (len + n) = Inr (r, L', w')"
      then obtain w1 n snum L2 w2 where cw: "clock w1 = clock w"
        and sd: "send (Suc k) L w1 sock buf n 0 = Inr (snum, L2, w2)"
        and rest: "sendfile_loop k L2 w2 sock fd buf count (len + n) = Inr (r, L', w')"
        by blast
      from send_frame [OF sd] Suc.IH [OF rest] cw show ?thesis by simp
    qed
  qed
qed

lemma sendfile_loop_credit:
  "sendfile_loop k L w sock fd buf count len = Inr (r, L', w') \<Longrightarrow> clock_steady w \<Longrightarrow>
     0 \<le> sendextra_m L \<Longrightarrow> 0 \<le> sendextra_m L'"
proof (induction k arbitrary: L w len)
  case 0
  then show ?case by (simp split: if_splits)
next
  case (Suc k)
  show ?case
  proof (cases "len < count")
    case False
    with Suc.prems show ?thesis by simp
  next
    case True
    from sendfile_loop_step [OF Suc.prems(1) True] show ?thesis
    proof
      assume "L' = L \<and> clock w' = clock w"
      with Suc.prems(3) show ?thesis by simp
    next
      assume "\<exists>w1 n snum L2 w2. clock w1 = clock w
          \<and> send (Suc k) L w1 sock buf n 0 = Inr (snum, L2, w2)
          \<and> sendfile_loop k L2 w2 sock fd buf count (len + n) = Inr (r, L', w')"
      then obtain w1 n snum L2 w2 where cw: "clock w1 = clock w"
        and sd: "send (Suc k) L w1 sock buf n 0 = Inr (snum, L2, w2)"
        and rest: "sendfile_loop k L2 w2 sock fd buf count (len + n) = Inr (r, L', w')"
        by blast
      have st1: "clock_steady w1" using Suc.prems(2) cw by (simp add: clock_steady_def)
      from send_credit [OF sd st1 Suc.prems(3)] have c2: "0 \<le> sendextra_m L2" .
      from send_frame [OF sd] st1 have st2: "clock_steady w2" by (simp add: clock_steady_def)
      from Suc.IH [OF rest st2 c2] show ?thesis .
    qed
  qed
qed

lemma sendfile_loop_forward:
  "sendfile_loop k L w sock fd buf count len = Inr (r, L', w') \<Longrightarrow> clock_steady w \<Longrightarrow>
     0 \<le> sendextra_m L \<Longrightarrow> rate_m L = 0 \<or> 8 \<le>s rate_m L \<Longrightarrow> 0 <s maxburst_m L \<Longrightarrow>
     time_less (send_m L') (send_m L) = 0
     \<and> (clock_normalized w \<and> normalized (send_m L) \<longrightarrow>
          normalized (send_m L') \<and> ns_of (send_m L) \<le> ns_of (send_m L'))"
proof (induction k arbitrary: L w len)
  case 0
  then show ?case by (simp add: time_less_refl split: if_splits)
next
  case (Suc k)
  show ?case
  proof (cases "len < count")
    case False
    with Suc.prems show ?thesis by (simp add: time_less_refl)
  next
    case True
    from sendfile_loop_step [OF Suc.prems(1) True] show ?thesis
    proof
      assume "L' = L \<and> clock w' = clock w"
      then show ?thesis by (simp add: time_less_refl)
    next
      assume "\<exists>w1 n snum L2 w2. clock w1 = clock w
          \<and> send (Suc k) L w1 sock buf n 0 = Inr (snum, L2, w2)
          \<and> sendfile_loop k L2 w2 sock fd buf count (len + n) = Inr (r, L', w')"
      then obtain w1 n snum L2 w2 where cw: "clock w1 = clock w"
        and sd: "send (Suc k) L w1 sock buf n 0 = Inr (snum, L2, w2)"
        and rest: "sendfile_loop k L2 w2 sock fd buf count (len + n) = Inr (r, L', w')"
        by blast
      have st1: "clock_steady w1" using Suc.prems(2) cw by (simp add: clock_steady_def)
      from send_credit [OF sd st1 Suc.prems(3)] have c2: "0 \<le> sendextra_m L2" .
      note fr = send_frame [OF sd]
      from fr st1 have st2: "clock_steady w2" by (simp add: clock_steady_def)
      from fr Suc.prems(4) have r2: "rate_m L2 = 0 \<or> 8 \<le>s rate_m L2" by simp
      from fr Suc.prems(5) have m2: "0 <s maxburst_m L2" by simp
      from send_forward [OF sd st1 Suc.prems(3,4,5)]
      have l1: "time_less (send_m L2) (send_m L) = 0"
        and n1: "clock_normalized w1 \<and> normalized (send_m L) \<longrightarrow>
          normalized (send_m L2) \<and> ns_of (send_m L) \<le> ns_of (send_m L2)"
        by blast+
      from Suc.IH [OF rest st2 c2 r2 m2]
      have l2: "time_less (send_m L') (send_m L2) = 0"
        and n2: "clock_normalized w2 \<and> normalized (send_m L2) \<longrightarrow>
          normalized (send_m L') \<and> ns_of (send_m L2) \<le> ns_of (send_m L')"
        by blast+
      have "normalized (send_m L') \<and> ns_of (send_m L) \<le> ns_of (send_m L')"
        if h: "clock_normalized w" "normalized (send_m L)"
      proof -
        from h(1) cw have "clock_normalized w1" by (simp add: clock_normalized_def)
        with n1 h(2) have a: "normalized (send_m L2)" "ns_of (send_m L) \<le> ns_of (send_m L2)"
          by blast+
        from h(1) cw fr have "clock_normalized w2" by (simp add: clock_normalized_def)
        with n2 a(1) have "normalized (send_m L')" "ns_of (send_m L2) \<le> ns_of (send_m L')"
          by blast+
        with a(2) show ?thesis by simp
      qed
      with time_less_trans [OF l2 l1] show ?thesis by blast
    qed
  qed
qed

lemma run_call_frame:
  assumes "run_call fuel c L w = Inr (r, L', w')"
  shows "clock w' = clock w \<and> rate_m L' = rate_m L \<and> maxburst_m L' = maxburst_m L"
proof (cases c)
  case (Send s buf len flags)
  with assms send_frame [of fuel L w s buf len flags r L' w'] show ?thesis by simp
next
  case (Recv s buf len flags)
  with assms recv_frame [of L w s buf len flags r L' w'] show ?thesis by simp
next
  case (Sendfile sock fd offset count buf)
  show ?thesis
  proof (cases "rate_m L = 0")
    case True
    with Sendfile assms show ?thesis
      by (auto simp: sendfile_def sys_sendfile_def Let_def)
  next
    case False
    with Sendfile assms have "sendfile_loop fuel L w sock fd buf count 0 = Inr (r, L', w')"
      by (simp add: sendfile_def)
    from sendfile_loop_frame [OF this] show ?thesis by simp
  qed
qed

lemma run_call_credit:
  assumes "run_call fuel c L w = Inr (r, L', w')" and "clock_steady w"
    and "0 \<le> sendextra_m L" and "0 \<le> recvextra_m L"
  shows "clock_steady w' \<and> 0 \<le> sendextra_m L' \<and> 0 \<le> recvextra_m L'"
proof (cases c)
  case (Send s buf len flags)
  with assms send_frame [of fuel L w s buf len flags r L' w']
    send_credit [of fuel L w s buf len flags r L' w']
  show ?thesis by (simp add: clock_steady_def)
next
  case (Recv s buf len flags)
  with assms recv_frame [of L w s buf len flags r L' w']
    recv_credit [of L w s buf len flags r L' w']
  show ?thesis by (simp add: clock_steady_def)
next
  case (Sendfile sock fd offset count buf)
  show ?thesis
  proof (cases "rate_m L = 0")
    case True
    with Sendfile assms show ?thesis
      by (auto simp: sendfile_def sys_sendfile_def Let_def clock_steady_def)
  next
    case False
    with Sendfile assms have sl: "sendfile_loop fuel L w sock fd buf count 0 = Inr (r, L', w')"
      by (simp add: sendfile_def)
    from sendfile_loop_frame [OF sl] sendfile_loop_credit [OF sl assms(2,3)] assms
    show ?thesis by (simp add: clock_steady_def)
  qed
qed

lemma run_call_forward:
  assumes run: "run_call fuel c L w = Inr (r, L', w')" and st: "clock_steady w"
    and cs: "0 \<le> sendextra_m L" and cr: "0 \<le> recvextra_m L"
    and rt: "rate_m L = 0 \<or> 8 \<le>s rate_m L" and mb: "0 <s maxburst_m L"
  shows "time_less (send_m L') (send_m L) = 0 \<and> time_less (recv_m L') (recv_m L) = 0
     \<and> (clock_normalized w \<and> normalized (send_m L) \<and> normalized (recv_m L) \<longrightarrow>
          normalized (send_m L') \<and> normalized (recv_m L')
          \<and> ns_of (send_m L) \<le> ns_of (send_m L') \<and> ns_of (recv_m L) \<le> ns_of (recv_m L'))"
proof (cases c)
  case (Send s buf len flags)
  with run have sd: "send fuel L w s buf len flags = Inr (r, L', w')" by simp
  from send_frame [OF sd] send_forward [OF sd st cs rt mb]
  show ?thesis by (simp add: time_less_refl)
next
  case (Recv s buf len flags)
  with run have rc: "recv L w s buf len flags = Inr (r, L', w')" by simp
  from recv_frame [OF rc] recv_forward [OF rc st cr rt]
  show ?thesis by (simp add: time_less_refl)
next
  case (Sendfile sock fd offset count buf)
  show ?thesis
  proof (cases "rate_m L = 0")
    case True
    with Sendfile run show ?thesis
      by (auto simp: sendfile_def sys_sendfile_def Let_def time_less_refl)
  next
    case False
    with Sendfile run have sl: "sendfile_loop fuel L w sock fd buf count 0 = Inr (r, L', w')"
      by (simp add: sendfile_def)
    from sendfile_loop_frame [OF sl] sendfile_loop_forward [OF sl st cs rt mb]
    show ?thesis by (simp add: time_less_refl)
  qed
qed

subsection \<open>Evaluation of the examples\<close>

lemma ucast_minus_1_int: "(ucast (- 1 :: 64 word) :: 32 word) = - 1"
  by (simp add: unsigned_minus_1_eq_mask mask_eq_exp_minus_1)

lemmas eval_defs = send_def sendall_def recv_def sendfile_def reserve_def draw_down_def
  time_add_def time_diff_def time_diff2_def time_less_def time_set_def trunc_def
  int_of_double_def nmax_def clock_gettime_def nanosleep_def sys_send_def sys_recv_def
  sys_read_def sys_sendfile_def EINTR_def Let_def limiter0_def world0_def tick_def quiet_def
  accepting_def word_sless_alt word_sle_eq ucast_minus_1_int dbl_numeral dbl_zero

lemma dbl_sub_nanosecond: "dbl (1953125 / 4194304) = 1953125 / 4194304"
  using dbl_exact [of 1953125 22] by simp

lemma dbl_seven_tenths:
  "dbl (3152519739159347 / 4503599627370496 * 1000000000) = 700000000"
  by (simp add: dbl_def ulp_def round_even_def Let_def eval_nat_numeral)

lemma clock_steady_world0: "clock_steady (world0 sd rc rd)"
  by (simp add: clock_steady_def world0_def tick_def ns_of_def nmax_def)

lemma clock_normalized_world0: "clock_normalized (world0 sd rc rd)"
  by (simp add: clock_normalized_def world0_def tick_def normalized_def nmax_def)

lemma example_run:
  "run_calls (Suc 0) [Send 3 4096 100 0, Recv 3 8192 100 0] limiter0
       (world0 accepting accepting quiet)
     = Inr (limiter0\<lparr>send_m := \<lparr>tv_sec = 0, tv_nsec = 100000000\<rparr>,
                     recv_m := \<lparr>tv_sec = 5, tv_nsec = 0\<rparr>,
                     sendextra_m := 1, recvextra_m := 9 / 10\<rparr>,
            (world0 accepting accepting quiet)
              \<lparr>n_clock := 6, n_send := 1, n_recv := 1,
               trace := [EvSleep \<lparr>tv_sec = 0, tv_nsec = 100000000\<rparr>, EvSend 3 4096 100 0,
                         EvRecv 3 8192 100 0, EvSleep \<lparr>tv_sec = 0, tv_nsec = 0\<rparr>]\<rparr>)"
  by (simp add: eval_defs)

section \<open>The claims\<close>

subsection \<open>Failures of the transport\<close>

text \<open>
  Claim C1 says that a failure of the transport send other than an interruption makes
  \<open>sendall\<close> and \<open>send\<close> stop and return an error. The code does not: at rate
  8000 bit/s with bursts of 500 bytes, a \<open>send\<close> of 1000 bytes on a transport whose
  every send fails with ECONNRESET returns 1000. \<open>sendall\<close> stops at the failure but
  returns its local \<open>error\<close>, which is 0; \<open>send\<close> compares that \<open>size_t\<close> with
  \<open>< 0\<close>, books the chunk, goes on to the second chunk and returns \<open>len\<close>.
\<close>

theorem send_hides_transport_failure:
  "sendall (Suc 0) (world0 reset quiet quiet) 3 4096 500 0
     = Inr (0, (world0 reset quiet quiet)
                 \<lparr>n_send := 1, errno := 104, trace := [EvSend 3 4096 500 0]\<rparr>)
   \<and> send (Suc (Suc 0)) limiter0 (world0 reset quiet quiet) 3 4096 1000 0
     = Inr (1000,
            limiter0\<lparr>send_m := \<lparr>tv_sec = 3, tv_nsec = 0\<rparr>, sendextra_m := 3 / 2\<rparr>,
            (world0 reset quiet quiet)
              \<lparr>n_clock := 6, n_send := 2, errno := 104,
               trace := [EvSleep \<lparr>tv_sec = 0, tv_nsec = 500000000\<rparr>, EvSend 3 4096 500 0,
                         EvSleep \<lparr>tv_sec = 0, tv_nsec = 0\<rparr>, EvSend 3 4596 500 0]\<rparr>)"
  by (simp add: eval_defs reset_def)

subsection \<open>Credit\<close>

text \<open>
  Claim C2. Along every sequence of calls of \<open>send\<close>, \<open>recv\<close> and \<open>sendfile\<close> that
  returns, under a clock that never runs backwards (so that every measured duration of
  a transfer is non-negative), both credits stay non-negative when they start so.
\<close>

theorem credit_never_negative:
  "run_calls fuel cs L w = Inr (L', w') \<Longrightarrow> clock_steady w \<Longrightarrow>
     0 \<le> sendextra_m L \<Longrightarrow> 0 \<le> recvextra_m L \<Longrightarrow>
     0 \<le> sendextra_m L' \<and> 0 \<le> recvextra_m L'"
proof (induction cs arbitrary: L w)
  case Nil
  then show ?case by simp
next
  case (Cons c cs)
  from Cons.prems(1) obtain r L1 w1 where c: "run_call fuel c L w = Inr (r, L1, w1)"
    and cs: "run_calls fuel cs L1 w1 = Inr (L', w')"
    by (auto split: sum.splits)
  from run_call_credit [OF c Cons.prems(2,3,4)] Cons.IH [OF cs] show ?case by simp
qed

theorem credit_never_negative_witness:
  "clock_steady (world0 accepting accepting quiet)
   \<and> 0 \<le> sendextra_m limiter0 \<and> 0 \<le> recvextra_m limiter0
   \<and> run_calls (Suc 0) [Send 3 4096 100 0, Recv 3 8192 100 0] limiter0
        (world0 accepting accepting quiet)
      = Inr (limiter0\<lparr>send_m := \<lparr>tv_sec = 0, tv_nsec = 100000000\<rparr>,
                      recv_m := \<lparr>tv_sec = 5, tv_nsec = 0\<rparr>,
                      sendextra_m := 1, recvextra_m := 9 / 10\<rparr>,
             (world0 accepting accepting quiet)
               \<lparr>n_clock := 6, n_send := 1, n_recv := 1,
                trace := [EvSleep \<lparr>tv_sec = 0, tv_nsec = 100000000\<rparr>, EvSend 3 4096 100 0,
                          EvRecv 3 8192 100 0, EvSleep \<lparr>tv_sec = 0, tv_nsec = 0\<rparr>]\<rparr>)
   \<and> 0 \<le> sendextra_m (limiter0\<lparr>send_m := \<lparr>tv_sec = 0, tv_nsec = 100000000\<rparr>,
                      recv_m := \<lparr>tv_sec = 5, tv_nsec = 0\<rparr>,
                      sendextra_m := 1, recvextra_m := 9 / 10\<rparr>)
   \<and> 0 \<le> recvextra_m (limiter0\<lparr>send_m := \<lparr>tv_sec = 0, tv_nsec = 100000000\<rparr>,
                      recv_m := \<lparr>tv_sec = 5, tv_nsec = 0\<rparr>,
                      sendextra_m := 1, recvextra_m := 9 / 10\<rparr>)"
proof -
  have c0: "0 \<le> sendextra_m limiter0" "0 \<le> recvextra_m limiter0"
    by (simp_all add: limiter0_def)
  from credit_never_negative [OF example_run clock_steady_world0 c0]
  show ?thesis using example_run clock_steady_world0 c0 by simp
qed

subsection \<open>Next eligible time\<close>

text \<open>
  Claim C3 says that no operation moves a next eligible time backward. That fails where
  the duration left by the draw-down does not fit the \<open>int\<close> that \<open>time_add\<close> converts
  it to. With a credit of \<open>-3000000000\<close> seconds, a value the constructors can leave in
  \<open>sendextra_\<close> as they do not write it, a \<open>send\<close> of 500 bytes at 8000 bit/s has a
  duration of 3000000000.5 seconds; the conversion yields \<open>INT_MIN\<close> and the next
  eligible time goes from 100 seconds back to -2147483548 seconds and 500000000
  nanoseconds.
\<close>

theorem next_eligible_time_moves_back_counterexample:
  "send (Suc (Suc (Suc (Suc (Suc 0)))))
     (limiter0\<lparr>send_m := \<lparr>tv_sec = 100, tv_nsec = 0\<rparr>, sendextra_m := - 3000000000\<rparr>)
     (world0 accepting quiet quiet) 3 4096 500 0
     = Inr (500,
            limiter0\<lparr>send_m := \<lparr>tv_sec = - 2147483548, tv_nsec = 500000000\<rparr>,
                     sendextra_m := 1\<rparr>,
            (world0 accepting quiet quiet)
              \<lparr>n_clock := 3, n_send := 5,
               trace := [EvSleep \<lparr>tv_sec = - 2147483548, tv_nsec = 500000000\<rparr>,
                         EvSend 3 4096 500 0, EvSend 3 4196 400 0, EvSend 3 4296 300 0,
                         EvSend 3 4396 200 0, EvSend 3 4496 100 0]\<rparr>)
   \<and> time_less \<lparr>tv_sec = - 2147483548, tv_nsec = 500000000\<rparr> \<lparr>tv_sec = 100, tv_nsec = 0\<rparr> = 1"
  by (simp add: eval_defs)

text \<open>
  Claim C3, as amended. On a limiter whose credits are not negative, whose rate is 0 or
  at least 8 bit/s and whose maximum burst is positive, under a clock that never runs
  backwards, every duration handed to \<open>time_add\<close> is below \<open>2^31\<close> seconds. Then along
  every sequence of calls of \<open>send\<close>, \<open>recv\<close> and \<open>sendfile\<close> that returns, neither
  next eligible time moves backward: by \<open>time_less\<close>, the order the code itself uses,
  the new time never precedes the old one; and when the readings of the clock and the two
  times have their nanoseconds in range, the new times have too and their counts of
  nanoseconds do not decrease. Each step is \<open>reserve\<close>: the time is reset to the current
  time when it precedes it, then advanced by the duration left by the draw-down, which
  is never negative.
\<close>

theorem next_eligible_time_never_earlier:
  "run_calls fuel cs L w = Inr (L', w') \<Longrightarrow> clock_steady w \<Longrightarrow>
     0 \<le> sendextra_m L \<Longrightarrow> 0 \<le> recvextra_m L \<Longrightarrow>
     rate_m L = 0 \<or> 8 \<le>s rate_m L \<Longrightarrow> 0 <s maxburst_m L \<Longrightarrow>
     time_less (send_m L') (send_m L) = 0 \<and> time_less (recv_m L') (recv_m L) = 0
     \<and> (clock_normalized w \<and> normalized (send_m L) \<and> normalized (recv_m L) \<longrightarrow>
          normalized (send_m L') \<and> normalized (recv_m L')
          \<and> ns_of (send_m L) \<le> ns_of (send_m L') \<and> ns_of (recv_m L) \<le> ns_of (recv_m L'))"
proof (induction cs arbitrary: L w)
  case Nil
  then show ?case by (simp add: time_less_refl)
next
  case (Cons c cs)
  from Cons.prems(1) obtain r L1 w1 where c: "run_call fuel c L w = Inr (r, L1, w1)"
    and cs: "run_calls fuel cs L1 w1 = Inr (L', w')"
    by (auto split: sum.splits)
  note fr = run_call_frame [OF c]
  from run_call_credit [OF c Cons.prems(2,3,4)]
  have st1: "clock_steady w1" and cs1: "0 \<le> sendextra_m L1" and cr1: "0 \<le> recvextra_m L1"
    by simp_all
  from fr Cons.prems(5) have r1: "rate_m L1 = 0 \<or> 8 \<le>s rate_m L1" by simp
  from fr Cons.prems(6) have m1: "0 <s maxburst_m L1" by simp
  note f1 = run_call_forward [OF c Cons.prems(2,3,4,5,6)]
  note f2 = Cons.IH [OF cs st1 cs1 cr1 r1 m1]
  have a: "time_less (send_m L') (send_m L) = 0"
    using time_less_trans [of "send_m L'" "send_m L1" "send_m L"] f1 f2 by blast
  have b: "time_less (recv_m L') (recv_m L) = 0"
    using time_less_trans [of "recv_m L'" "recv_m L1" "recv_m L"] f1 f2 by blast
  have n: "normalized (send_m L') \<and> normalized (recv_m L')
          \<and> ns_of (send_m L) \<le> ns_of (send_m L') \<and> ns_of (recv_m L) \<le> ns_of (recv_m L')"
    if h: "clock_normalized w" "normalized (send_m L)" "normalized (recv_m L)"
  proof -
    from f1 h
    have s1: "normalized (send_m L1)" "normalized (recv_m L1)"
      and m1: "ns_of (send_m L) \<le> ns_of (send_m L1)" "ns_of (recv_m L) \<le> ns_of (recv_m L1)"
      by blast+
    from h(1) fr have "clock_normalized w1" by (simp add: clock_normalized_def)
    with f2 s1
    have m2: "ns_of (send_m L1) \<le> ns_of (send_m L')" "ns_of (recv_m L1) \<le> ns_of (recv_m L')"
      and n2: "normalized (send_m L')" "normalized (recv_m L')"
      by blast+
    from m1 m2 n2 show ?thesis by simp
  qed
  from a b n show ?case by blast
qed

theorem next_eligible_time_never_earlier_witness:
  "clock_steady (world0 accepting accepting quiet)
   \<and> 0 \<le> sendextra_m limiter0 \<and> 0 \<le> recvextra_m limiter0
   \<and> (rate_m limiter0 = 0 \<or> 8 \<le>s rate_m limiter0) \<and> 0 <s maxburst_m limiter0
   \<and> clock_normalized (world0 accepting accepting quiet)
   \<and> normalized (send_m limiter0) \<and> normalized (recv_m limiter0)
   \<and> run_calls (Suc 0) [Send 3 4096 100 0, Recv 3 8192 100 0] limiter0
        (world0 accepting accepting quiet)
      = Inr (limiter0\<lparr>send_m := \<lparr>tv_sec = 0, tv_nsec = 100000000\<rparr>,
                      recv_m := \<lparr>tv_sec = 5, tv_nsec = 0\<rparr>,
                      sendextra_m := 1, recvextra_m := 9 / 10\<rparr>,
             (world0 accepting accepting quiet)
               \<lparr>n_clock := 6, n_send := 1, n_recv := 1,
                trace := [EvSleep \<lparr>tv_sec = 0, tv_nsec = 100000000\<rparr>, EvSend 3 4096 100 0,
                          EvRecv 3 8192 100 0, EvSleep \<lparr>tv_sec = 0, tv_nsec = 0\<rparr>]\<rparr>)
   \<and> time_less \<lparr>tv_sec = 0, tv_nsec = 100000000\<rparr> (send_m limiter0) = 0
   \<and> time_less \<lparr>tv_sec = 5, tv_nsec = 0\<rparr> (recv_m limiter0) = 0
   \<and> ns_of (send_m limiter0) \<le> ns_of \<lparr>tv_sec = 0, tv_nsec = 100000000\<rparr>
   \<and> ns_of (recv_m limiter0) \<le> ns_of \<lparr>tv_sec = 5, tv_nsec = 0\<rparr>"
proof -
  have c0: "0 \<le> sendextra_m limiter0" "0 \<le> recvextra_m limiter0"
    by (simp_all add: limiter0_def)
  have r0: "rate_m limiter0 = 0 \<or> 8 \<le>s rate_m limiter0"
    by (simp add: limiter0_def word_sle_eq)
  have m0: "0 <s maxburst_m limiter0"
    by (simp add: limiter0_def word_sless_alt)
  have n0: "normalized (send_m limiter0)" "normalized (recv_m limiter0)"
    by (simp_all add: limiter0_def normalized_def nmax_def)
  from next_eligible_time_never_earlier [OF example_run clock_steady_world0 c0 r0 m0]
  show ?thesis using example_run clock_steady_world0 clock_normalized_world0 c0 r0 m0 n0
    by (simp add: ns_of_def nmax_def limiter0_def)
qed

subsection \<open>The draw-down\<close>

text \<open>
  Claim C4. The draw-down step shared by \<open>send\<close> and \<open>recv\<close> turns an ideal duration
  \<open>d\<close> and a credit \<open>c\<close> into the duration \<open>d - min d c = max (d - c) 0\<close> and the credit
  \<open>c - min d c = max (c - d) 0\<close>. The delay is reduced by \<open>min d c\<close>, which is never more
  than the credit, and neither result is negative. This holds for all \<open>d\<close> and \<open>c\<close>, so
  in particular for the non-negative ones.
\<close>

theorem draw_down_exact:
  "draw_down d c = (d - min d c, c - min d c)
   \<and> d - min d c = max (d - c) 0
   \<and> c - min d c = max (c - d) 0
   \<and> d - fst (draw_down d c) = min d c
   \<and> d - fst (draw_down d c) \<le> c
   \<and> 0 \<le> fst (draw_down d c) \<and> 0 \<le> snd (draw_down d c)"
  by (simp add: draw_down_def min_def max_def)

subsection \<open>Unlimited rate\<close>

text \<open>
  Claim C5. With rate 0 each of \<open>send\<close>, \<open>recv\<close> and \<open>sendfile\<close> makes one call of
  its primitive with the arguments of the caller and returns the value of the primitive
  (a \<open>ssize_t\<close> returned as \<open>size_t\<close> keeps its 64 bits), with the \<open>errno\<close> the
  primitive has set. The limiter is unchanged, the clock is not read and nothing is
  slept: the only change of the world is that call.
\<close>

theorem unlimited_rate_is_direct_call:
  "rate_m L = 0 \<Longrightarrow>
     send fuel L w s buf len flags =
       Inr (rv (net_send w (n_send w)), L,
            w\<lparr>n_send := Suc (n_send w),
              errno := (if rv (net_send w (n_send w)) <s 0 then err (net_send w (n_send w))
                        else errno w),
              trace := trace w @ [EvSend s buf len flags]\<rparr>)
   \<and> recv L w s buf len flags =
       Inr (rv (net_recv w (n_recv w)), L,
            w\<lparr>n_recv := Suc (n_recv w),
              errno := (if rv (net_recv w (n_recv w)) <s 0 then err (net_recv w (n_recv w))
                        else errno w),
              trace := trace w @ [EvRecv s buf len flags]\<rparr>)
   \<and> sendfile fuel L w s fd offset count lbuf =
       Inr (rv (net_sendfile w (n_sendfile w)), L,
            w\<lparr>n_sendfile := Suc (n_sendfile w),
              errno := (if rv (net_sendfile w (n_sendfile w)) <s 0
                        then err (net_sendfile w (n_sendfile w)) else errno w),
              trace := trace w @ [EvSendfile s fd offset count]\<rparr>)"
  by (simp add: send_def recv_def sendfile_def sys_send_def sys_recv_def sys_sendfile_def
        Let_def)

theorem unlimited_rate_is_direct_call_witness:
  "rate_m (limiter0\<lparr>rate_m := 0\<rparr>) = 0
   \<and> send 0 (limiter0\<lparr>rate_m := 0\<rparr>) (world0 reset accepting quiet) 3 4096 10000 0
       = Inr (- 1, limiter0\<lparr>rate_m := 0\<rparr>,
              (world0 reset accepting quiet)
                \<lparr>n_send := 1, errno := 104, trace := [EvSend 3 4096 10000 0]\<rparr>)
   \<and> recv (limiter0\<lparr>rate_m := 0\<rparr>) (world0 reset accepting quiet) 3 4096 10000 0
       = Inr (100, limiter0\<lparr>rate_m := 0\<rparr>,
              (world0 reset accepting quiet)\<lparr>n_recv := 1, trace := [EvRecv 3 4096 10000 0]\<rparr>)
   \<and> sendfile 0 (limiter0\<lparr>rate_m := 0\<rparr>) (world0 reset accepting quiet) 3 7 0 2500 8192
       = Inr (0, limiter0\<lparr>rate_m := 0\<rparr>,
              (world0 reset accepting quiet)
                \<lparr>n_sendfile := 1, trace := [EvSendfile 3 7 0 2500]\<rparr>)"
  using unlimited_rate_is_direct_call
    [of "limiter0\<lparr>rate_m := 0\<rparr>" 0 "world0 reset accepting quiet" 3 4096 10000 0 7 0 2500 8192]
  by (simp add: world0_def reset_def accepting_def quiet_def word_sless_alt)

subsection \<open>Construction\<close>

text \<open>
  Claim C6 says that every constructor sets both next eligible times to the current time
  and both credits to 0. The code does not: no constructor writes \<open>sendextra_\<close> or
  \<open>recvextra_\<close>, and the constructor with two arguments does not write \<open>recv_\<close>
  either. On storage that holds earlier values, these members keep them.
\<close>

theorem constructors_leave_members_unset:
  "RateLimiter_int_int stale (world0 quiet quiet quiet) 8 500
     = (stale\<lparr>send_m := \<lparr>tv_sec = 0, tv_nsec = 0\<rparr>, rate_m := 8000, maxburst_m := 500\<rparr>,
        (world0 quiet quiet quiet)\<lparr>n_clock := 1\<rparr>)
   \<and> recv_m (fst (RateLimiter_int_int stale (world0 quiet quiet quiet) 8 500))
       = \<lparr>tv_sec = - 5, tv_nsec = 7\<rparr>
   \<and> sendextra_m (fst (RateLimiter_int_int stale (world0 quiet quiet quiet) 8 500)) = - 7 / 2
   \<and> recvextra_m (fst (RateLimiter_int_int stale (world0 quiet quiet quiet) 8 500)) = 42
   \<and> RateLimiter_int stale (world0 quiet quiet quiet) 8
     = (stale\<lparr>send_m := \<lparr>tv_sec = 0, tv_nsec = 0\<rparr>, recv_m := \<lparr>tv_sec = 1, tv_nsec = 0\<rparr>,
              rate_m := 8000, maxburst_m := 10000\<rparr>,
        (world0 quiet quiet quiet)\<lparr>n_clock := 2\<rparr>)
   \<and> sendextra_m (fst (RateLimiter_int stale (world0 quiet quiet quiet) 8)) = - 7 / 2
   \<and> RateLimiter stale (world0 quiet quiet quiet)
     = (stale\<lparr>send_m := \<lparr>tv_sec = 0, tv_nsec = 0\<rparr>, recv_m := \<lparr>tv_sec = 1, tv_nsec = 0\<rparr>,
              rate_m := 0, maxburst_m := 10000\<rparr>,
        (world0 quiet quiet quiet)\<lparr>n_clock := 2\<rparr>)
   \<and> sendextra_m (fst (RateLimiter stale (world0 quiet quiet quiet))) = - 7 / 2"
  by (simp add: RateLimiter_def RateLimiter_int_def RateLimiter_int_int_def clock_gettime_def
        world0_def tick_def stale_def Let_def)

subsection \<open>A peer that stops accepting\<close>

text \<open>
  Claim C7 says that when the transport send returns 0 before all bytes are written,
  \<open>send\<close> returns the smaller count of bytes delivered. The code does not: of 1000
  bytes, the peer accepts 200 and then nothing; \<open>sendall\<close> leaves its loop and returns
  the full length of the chunk, and \<open>send\<close> goes on to the second chunk and returns 1000.
\<close>

theorem send_full_count_after_peer_stops:
  "send (Suc (Suc (Suc 0))) limiter0 (world0 stalled quiet quiet) 3 4096 1000 0
     = Inr (1000,
            limiter0\<lparr>send_m := \<lparr>tv_sec = 3, tv_nsec = 0\<rparr>, sendextra_m := 3 / 2\<rparr>,
            (world0 stalled quiet quiet)
              \<lparr>n_clock := 6, n_send := 3,
               trace := [EvSleep \<lparr>tv_sec = 0, tv_nsec = 500000000\<rparr>, EvSend 3 4096 500 0,
                         EvSend 3 4296 300 0, EvSleep \<lparr>tv_sec = 0, tv_nsec = 0\<rparr>,
                         EvSend 3 4596 500 0]\<rparr>)"
  by (simp add: eval_defs stalled_def)

subsection \<open>Time arithmetic\<close>

text \<open>
  Claim C8 says that \<open>time_add\<close> yields the exact sum for every non-negative duration.
  It does not. A duration of \<open>1 / 2147483648\<close> seconds, less than a nanosecond, leaves
  the time unchanged. For the double nearest to 0.7, which is below 0.7, the product
  with \<open>10^9\<close> rounds up to 700000000 and that many nanoseconds are added, more
  than the duration. A duration of 2147483648 seconds does not fit the \<open>int\<close> it is
  converted to, and the time moves back by that many seconds.
\<close>

theorem time_add_not_exact_counterexample:
  "time_add \<lparr>tv_sec = 0, tv_nsec = 0\<rparr> (1 / 2147483648) = \<lparr>tv_sec = 0, tv_nsec = 0\<rparr>
   \<and> real_of_int (ns_of \<lparr>tv_sec = 0, tv_nsec = 0\<rparr>)
       \<noteq> real_of_int (ns_of \<lparr>tv_sec = 0, tv_nsec = 0\<rparr>) + 1 / 2147483648 * 1000000000
   \<and> time_add \<lparr>tv_sec = 0, tv_nsec = 0\<rparr> (3152519739159347 / 4503599627370496)
       = \<lparr>tv_sec = 0, tv_nsec = 700000000\<rparr>
   \<and> real_of_int (ns_of \<lparr>tv_sec = 0, tv_nsec = 700000000\<rparr>)
       \<noteq> real_of_int (ns_of \<lparr>tv_sec = 0, tv_nsec = 0\<rparr>)
           + 3152519739159347 / 4503599627370496 * 1000000000
   \<and> time_add \<lparr>tv_sec = 0, tv_nsec = 0\<rparr> 2147483648 = \<lparr>tv_sec = - 2147483648, tv_nsec = 0\<rparr>"
  using dbl_seven_tenths
  by (simp add: time_add_def trunc_def int_of_double_def nmax_def Let_def ns_of_def
        dbl_sub_nanosecond dbl_zero)

text \<open>
  Claim C8, as amended. For times with nanoseconds in range: \<open>time_less a b\<close> is 1 when
  \<open>a\<close> strictly precedes \<open>b\<close> and 0 otherwise. For a duration \<open>d\<close> with
  \<open>0 \<le> d < 2147483648\<close>, \<open>time_add\<close> adds the whole seconds of \<open>d\<close> and the whole
  nanoseconds of the rounded product of its fraction with \<open>10^9\<close>: that is the duration
  rounded down to a whole nanosecond, or one nanosecond more when the product rounds
  up to a whole number; the nanoseconds stay in range. When \<open>b\<close> does not follow
  \<open>a\<close>, \<open>time_diff\<close> is exactly the difference with nanoseconds in range, and
  \<open>time_diff2\<close> is the seconds of that difference plus its nanoseconds over \<open>10^9\<close>
  (a sum and a quotient of doubles, taken as exact here).
\<close>

theorem time_arithmetic_to_the_nanosecond:
  "normalized a \<Longrightarrow> normalized b \<Longrightarrow>
     time_less a b = (if ns_of a < ns_of b then 1 else 0)
   \<and> (0 \<le> d \<and> d < 2147483648 \<longrightarrow>
        normalized (time_add a d)
        \<and> ns_of (time_add a d)
            = ns_of a + \<lfloor>d\<rfloor> * 1000000000 + \<lfloor>dbl ((d - of_int \<lfloor>d\<rfloor>) * 1000000000)\<rfloor>
        \<and> ns_of a + \<lfloor>d * 1000000000\<rfloor> \<le> ns_of (time_add a d)
        \<and> ns_of (time_add a d) \<le> ns_of a + \<lfloor>d * 1000000000\<rfloor> + 1)
   \<and> (ns_of b \<le> ns_of a \<longrightarrow>
        normalized (time_diff a b z) \<and> ns_of (time_diff a b z) = ns_of a - ns_of b
        \<and> time_diff2 a b
            = of_int (tv_sec (time_diff a b z)) + of_int (tv_nsec (time_diff a b z)) / 1000000000)"
proof -
  assume a: "normalized a" and b: "normalized b"
  have l: "time_less a b = (if ns_of a < ns_of b then 1 else 0)"
    using time_less_ns [OF a b] by (auto simp: time_less_def split: if_splits)
  have ad: "normalized (time_add a d)
        \<and> ns_of (time_add a d)
            = ns_of a + \<lfloor>d\<rfloor> * 1000000000 + \<lfloor>dbl ((d - of_int \<lfloor>d\<rfloor>) * 1000000000)\<rfloor>
        \<and> ns_of a + \<lfloor>d * 1000000000\<rfloor> \<le> ns_of (time_add a d)
        \<and> ns_of (time_add a d) \<le> ns_of a + \<lfloor>d * 1000000000\<rfloor> + 1"
    if d: "0 \<le> d" "d < 2147483648"
    using time_add_normalized [OF d a] time_add_ns [OF d, of a] time_add_within [OF d, of a]
    by blast
  have df: "normalized (time_diff a b z) \<and> ns_of (time_diff a b z) = ns_of a - ns_of b
        \<and> time_diff2 a b
            = of_int (tv_sec (time_diff a b z)) + of_int (tv_nsec (time_diff a b z)) / 1000000000"
    if "ns_of b \<le> ns_of a"
    using time_diff_ns [OF a b that, of z] time_diff2_parts [of a b z] by blast
  from l ad df show ?thesis by blast
qed

theorem time_arithmetic_to_the_nanosecond_witness:
  "normalized \<lparr>tv_sec = 3, tv_nsec = 100000000\<rparr>
   \<and> normalized \<lparr>tv_sec = 1, tv_nsec = 600000000\<rparr>
   \<and> (0::real) \<le> 3 / 2 \<and> (3 / 2 :: real) < 2147483648
   \<and> ns_of \<lparr>tv_sec = 1, tv_nsec = 600000000\<rparr> \<le> ns_of \<lparr>tv_sec = 3, tv_nsec = 100000000\<rparr>
   \<and> time_less \<lparr>tv_sec = 3, tv_nsec = 100000000\<rparr> \<lparr>tv_sec = 1, tv_nsec = 600000000\<rparr> = 0
   \<and> time_add \<lparr>tv_sec = 3, tv_nsec = 100000000\<rparr> (3 / 2) = \<lparr>tv_sec = 4, tv_nsec = 600000000\<rparr>
   \<and> time_diff \<lparr>tv_sec = 3, tv_nsec = 100000000\<rparr> \<lparr>tv_sec = 1, tv_nsec = 600000000\<rparr>
        \<lparr>tv_sec = 0, tv_nsec = 0\<rparr> = \<lparr>tv_sec = 1, tv_nsec = 500000000\<rparr>
   \<and> time_diff2 \<lparr>tv_sec = 3, tv_nsec = 100000000\<rparr> \<lparr>tv_sec = 1, tv_nsec = 600000000\<rparr> = 3 / 2"
  using time_arithmetic_to_the_nanosecond
    [of "\<lparr>tv_sec = 3, tv_nsec = 100000000\<rparr>" "\<lparr>tv_sec = 1, tv_nsec = 600000000\<rparr>" "3 / 2"
        "\<lparr>tv_sec = 0, tv_nsec = 0\<rparr>"]
  by (simp add: normalized_def ns_of_def nmax_def time_less_def time_add_def time_diff_def
        time_diff2_def trunc_def int_of_double_def Let_def dbl_numeral)

subsection \<open>Failures of the file read\<close>

text \<open>
  Claim C9 says that in \<open>sendfile\<close> a failure of the read other than an interruption
  is returned as an error, and that an interrupted read is retried. The code does
  neither: \<open>rnum\<close> is a \<open>size_t\<close>, so the result \<open>-1\<close> of the read is a large count,
  which is cut down to the bytes still wanted; the buffer is sent as if it had been
  read, and \<open>sendfile\<close> returns the count asked for. An interrupted read is treated
  the same way.
\<close>

theorem sendfile_hides_read_failure:
  "sendfile (Suc (Suc 0)) limiter0 (world0 accepting quiet io_error) 3 7 0 100 8192
     = Inr (100,
            limiter0\<lparr>send_m := \<lparr>tv_sec = 0, tv_nsec = 100000000\<rparr>, sendextra_m := 1\<rparr>,
            (world0 accepting quiet io_error)
              \<lparr>n_clock := 3, n_send := 1, n_read := 1, errno := 5,
               trace := [EvRead 7 8192 1024, EvSleep \<lparr>tv_sec = 0, tv_nsec = 100000000\<rparr>,
                         EvSend 3 8192 100 0]\<rparr>)
   \<and> sendfile (Suc (Suc 0)) limiter0 (world0 accepting quiet interrupted) 3 7 0 100 8192
     = Inr (100,
            limiter0\<lparr>send_m := \<lparr>tv_sec = 0, tv_nsec = 100000000\<rparr>, sendextra_m := 1\<rparr>,
            (world0 accepting quiet interrupted)
              \<lparr>n_clock := 3, n_send := 1, n_read := 1, errno := 4,
               trace := [EvRead 7 8192 1024, EvSleep \<lparr>tv_sec = 0, tv_nsec = 100000000\<rparr>,
                         EvSend 3 8192 100 0]\<rparr>)"
  by (simp add: eval_defs io_error_def interrupted_def)

subsection \<open>A send of no bytes\<close>

text \<open>
  Claim C10. With a configured rate other than 0 (so for every positive rate), \<open>send\<close>
  of length 0 returns 0 whatever the fuel: the loop body does not run, so the limiter
  and the world (trace of calls and sleeps, counters of the primitives) are unchanged.
\<close>

theorem send_zero_length:
  "rate_m L \<noteq> 0 \<Longrightarrow> send fuel L w s buf 0 flags = Inr (0, L, w)"
  by (cases fuel) (simp_all add: send_def)

theorem send_zero_length_witness:
  "rate_m limiter0 \<noteq> 0
   \<and> send 0 limiter0 (world0 quiet quiet quiet) 3 4096 0 0
       = Inr (0, limiter0, world0 quiet quiet quiet)"
  using send_zero_length [of limiter0 0 "world0 quiet quiet quiet" 3 4096 0]
  by (simp add: limiter0_def)

end
